theory Spec2Isabelle
  imports Complex_Main "HOL-Library.Multiset" "HOL-Library.List_Lexorder"
begin

section \<open>JavaScript values\<close>

text \<open>
  A JavaScript string is a sequence of UTF-16 code units. A code unit is modelled as a
  natural number (the values below \<open>65536\<close> are the code units), a string as the list of
  its code units. \<open>jstr\<close> reads an ASCII literal as such a string.
\<close>

type_synonym jschar = nat
type_synonym jsstring = "jschar list"

definition jstr :: "string \<Rightarrow> jsstring" where
  "jstr s = map of_char s"

text \<open>
  A JavaScript number is a NaN, an infinity or a finite double. A finite double is
  modelled by the real number it denotes; the sign of zero is not modelled.
\<close>

datatype jsnum = NaN | PInf | NInf | Fin real

text \<open>The values the parsers receive: \<open>undefined\<close>, \<open>null\<close>, a number or a string.\<close>

datatype jsval = JUndefined | JNull | JNum jsnum | JStr jsstring

section \<open>String primitives\<close>

text \<open>
  The characters that \<open>String.prototype.trim\<close> removes and that the regular expression
  class \<open>\s\<close> matches: WhiteSpace and LineTerminator of ECMAScript.
\<close>

definition isWhiteSpace :: "jschar \<Rightarrow> bool" where
  "isWhiteSpace c \<longleftrightarrow>
     c = 9 \<or> c = 10 \<or> c = 11 \<or> c = 12 \<or> c = 13 \<or> c = 32 \<or> c = 160 \<or> c = 5760 \<or>
     (8192 \<le> c \<and> c \<le> 8202) \<or> c = 8232 \<or> c = 8233 \<or> c = 8239 \<or> c = 8287 \<or>
     c = 12288 \<or> c = 65279"

text \<open>\<open>s.trim()\<close>\<close>

definition trim :: "jsstring \<Rightarrow> jsstring" where
  "trim s = rev (dropWhile isWhiteSpace (rev (dropWhile isWhiteSpace s)))"

text \<open>\<open>\d\<close>: an ASCII digit.\<close>

definition isDigit :: "jschar \<Rightarrow> bool" where
  "isDigit c \<longleftrightarrow> 48 \<le> c \<and> c \<le> 57"

fun startsWith :: "jsstring \<Rightarrow> jsstring \<Rightarrow> bool" where
  "startsWith s [] = True"
| "startsWith [] (p # ps) = False"
| "startsWith (c # cs) (p # ps) = (c = p \<and> startsWith cs ps)"

text \<open>\<open>s.includes(pat)\<close>\<close>

fun includesStr :: "jsstring \<Rightarrow> jsstring \<Rightarrow> bool" where
  "includesStr [] pat = (pat = [])"
| "includesStr (c # cs) pat = (startsWith (c # cs) pat \<or> includesStr cs pat)"

section \<open>Value parsers (index.js)\<close>

text \<open>
  \<^verbatim>\<open>
  function parseDateISO(v) {
    if (!v) return null;
    const s = String(v).trim();
    const datePart = s.split(" ")[0];
    const m = datePart.match(/^(\d{2})\/(\d{2})\/(\d{4})$/);
    if (m) { const [, d, mth, y] = m; return `${y}-${mth}-${d}`; }
    return null;
  }
  \<close>
  \<open>None\<close> is \<open>null\<close>. The regular expression matches exactly the ten-character strings
  of the shape dd/dd/dddd.
\<close>

definition matchDate :: "jsstring \<Rightarrow> (jsstring \<times> jsstring \<times> jsstring) option" where
  "matchDate p =
     (case p of
        [d1, d2, s1, m1, m2, s2, y1, y2, y3, y4] \<Rightarrow>
          if isDigit d1 \<and> isDigit d2 \<and> s1 = 47 \<and> isDigit m1 \<and> isDigit m2 \<and> s2 = 47 \<and>
             isDigit y1 \<and> isDigit y2 \<and> isDigit y3 \<and> isDigit y4
          then Some ([d1, d2], [m1, m2], [y1, y2, y3, y4])
          else None
      | _ \<Rightarrow> None)"

text \<open>\<open>s.split(" ")[0]\<close>: the text before the first U+0020.\<close>

definition beforeFirstSpace :: "jsstring \<Rightarrow> jsstring" where
  "beforeFirstSpace s = takeWhile (\<lambda>c. c \<noteq> 32) s"

definition dateOfText :: "jsstring \<Rightarrow> jsstring option" where
  "dateOfText s =
     (case matchDate (beforeFirstSpace (trim s)) of
        Some (d, mth, y) \<Rightarrow> Some (y @ [45] @ mth @ [45] @ d)
      | None \<Rightarrow> None)"

text \<open>
  A number that is not falsy is turned into its decimal text by \<open>String(v)\<close>; that text
  is made of digits, \<open>.\<close>, \<open>e\<close>, \<open>+\<close>, \<open>-\<close> or is \<open>Infinity\<close>, so it holds no \<open>/\<close> and the
  match fails: the result is \<open>null\<close> for every number.
\<close>

fun parseDateISO :: "jsval \<Rightarrow> jsstring option" where
  "parseDateISO JUndefined = None"
| "parseDateISO JNull = None"
| "parseDateISO (JNum n) = None"
| "parseDateISO (JStr s) = (if s = [] then None else dateOfText s)"

text \<open>
  \<^verbatim>\<open>
  function parseNumber(v) {
    if (v == null) return 0;
    if (typeof v === "number") { return isNaN(v) ? 0 : v; }
    let s = String(v).replace(/R\$/gi, "").replace(/\s|\u00A0/g, "")
                     .replace(/\./g, "").replace(",", ".");
    const n = Number(s);
    return isNaN(n) ? 0 : n;
  }
  \<close>
\<close>

text \<open>\<open>.replace(/R\$/gi, "")\<close>: every non-overlapping \<open>R$\<close> or \<open>r$\<close>, left to right.\<close>

fun stripRS :: "jsstring \<Rightarrow> jsstring" where
  "stripRS (c # d # cs) =
     (if (c = 82 \<or> c = 114) \<and> d = 36 then stripRS cs else c # stripRS (d # cs))"
| "stripRS cs = cs"

text \<open>\<open>.replace(/\s|\u00A0/g, "")\<close>\<close>

definition stripSpaces :: "jsstring \<Rightarrow> jsstring" where
  "stripSpaces s = filter (\<lambda>c. \<not> (isWhiteSpace c \<or> c = 160)) s"

text \<open>\<open>.replace(/\./g, "")\<close>\<close>

definition stripDots :: "jsstring \<Rightarrow> jsstring" where
  "stripDots s = filter (\<lambda>c. c \<noteq> 46) s"

text \<open>\<open>.replace(",", ".")\<close>: a string pattern replaces the first occurrence only.\<close>

fun replaceFirstComma :: "jsstring \<Rightarrow> jsstring" where
  "replaceFirstComma [] = []"
| "replaceFirstComma (c # cs) = (if c = 44 then 46 # cs else c # replaceFirstComma cs)"

subsection \<open>\<open>Number(s)\<close>: StringToNumber of ECMAScript\<close>

text \<open>
  The text is trimmed; the empty text is 0; otherwise it must be, as a whole, a
  StrDecimalLiteral (an optional sign, then \<open>Infinity\<close> or decimal digits with an optional
  fraction and an optional exponent) or an unsigned \<open>0x\<close>, \<open>0o\<close> or \<open>0b\<close> integer literal;
  anything else is NaN. The mathematical value of the literal is rounded to a double by
  \<open>rnd\<close>.
\<close>

definition digitsVal :: "nat \<Rightarrow> jsstring \<Rightarrow> nat" where
  "digitsVal radix ds =
     foldl (\<lambda>a c. radix * a +
        (if 48 \<le> c \<and> c \<le> 57 then c - 48
         else if 97 \<le> c \<and> c \<le> 102 then c - 87
         else c - 55)) 0 ds"

definition isHexDigit :: "jschar \<Rightarrow> bool" where
  "isHexDigit c \<longleftrightarrow> isDigit c \<or> (97 \<le> c \<and> c \<le> 102) \<or> (65 \<le> c \<and> c \<le> 70)"

definition isOctalDigit :: "jschar \<Rightarrow> bool" where
  "isOctalDigit c \<longleftrightarrow> 48 \<le> c \<and> c \<le> 55"

definition isBinaryDigit :: "jschar \<Rightarrow> bool" where
  "isBinaryDigit c \<longleftrightarrow> c = 48 \<or> c = 49"

definition parseNonDecimal :: "jsstring \<Rightarrow> nat option" where
  "parseNonDecimal s =
     (case s of
        z # x # ds \<Rightarrow>
          if z = 48 \<and> ds \<noteq> [] then
            if (x = 120 \<or> x = 88) \<and> list_all isHexDigit ds then Some (digitsVal 16 ds)
            else if (x = 111 \<or> x = 79) \<and> list_all isOctalDigit ds then Some (digitsVal 8 ds)
            else if (x = 98 \<or> x = 66) \<and> list_all isBinaryDigit ds then Some (digitsVal 2 ds)
            else None
          else None
      | _ \<Rightarrow> None)"

definition decimalDigits :: "jsstring \<Rightarrow> bool" where
  "decimalDigits ds \<longleftrightarrow> ds \<noteq> [] \<and> list_all isDigit ds"

text \<open>The optional ExponentPart that ends a decimal literal, as a power of ten.\<close>

definition parseExponent :: "jsstring \<Rightarrow> int option" where
  "parseExponent s =
     (case s of
        [] \<Rightarrow> Some 0
      | c # r \<Rightarrow>
          if c = 101 \<or> c = 69 then
            (case r of
               [] \<Rightarrow> None
             | sg # ds \<Rightarrow>
                 if sg = 43 then (if decimalDigits ds then Some (int (digitsVal 10 ds)) else None)
                 else if sg = 45 then (if decimalDigits ds then Some (- int (digitsVal 10 ds)) else None)
                 else if decimalDigits r then Some (int (digitsVal 10 r)) else None)
          else None)"

definition pow10 :: "int \<Rightarrow> real" where
  "pow10 e = (if 0 \<le> e then 10 ^ nat e else 1 / 10 ^ nat (- e))"

definition parseUnsignedDecimal :: "jsstring \<Rightarrow> real option" where
  "parseUnsignedDecimal s =
     (let ip = takeWhile isDigit s;
          r1 = dropWhile isDigit s;
          hasDot = (r1 \<noteq> [] \<and> hd r1 = 46);
          fp = (if hasDot then takeWhile isDigit (tl r1) else []);
          r2 = (if hasDot then dropWhile isDigit (tl r1) else r1)
      in if ip = [] \<and> fp = [] then None
         else (case parseExponent r2 of
                 None \<Rightarrow> None
               | Some e \<Rightarrow> Some (real (digitsVal 10 (ip @ fp)) * pow10 (e - int (length fp)))))"

definition strToNum :: "(real \<Rightarrow> jsnum) \<Rightarrow> jsstring \<Rightarrow> jsnum" where
  "strToNum rnd s =
     (let t = trim s in
      if t = [] then Fin 0
      else (case parseNonDecimal t of
              Some n \<Rightarrow> rnd (real n)
            | None \<Rightarrow>
                let neg = (hd t = 45);
                    u = (if hd t = 43 \<or> hd t = 45 then tl t else t)
                in if u = jstr ''Infinity'' then (if neg then NInf else PInf)
                   else (case parseUnsignedDecimal u of
                           None \<Rightarrow> NaN
                         | Some v \<Rightarrow> rnd (if neg then - v else v))))"

fun parseNumber :: "(real \<Rightarrow> jsnum) \<Rightarrow> jsval \<Rightarrow> jsnum" where
  "parseNumber rnd JUndefined = Fin 0"
| "parseNumber rnd JNull = Fin 0"
| "parseNumber rnd (JNum v) = (if v = NaN then Fin 0 else v)"
| "parseNumber rnd (JStr v) =
     (let s = replaceFirstComma (stripDots (stripSpaces (stripRS v)));
          n = strToNum rnd s
      in if n = NaN then Fin 0 else n)"

section \<open>Double arithmetic\<close>

text \<open>
  Every arithmetic operation of the program computes the exact result and rounds it to a
  double. The rounding is the parameter \<open>rnd\<close> of the model: \<open>round64\<close> is the rounding of
  IEEE 754 binary64 (to nearest, ties to even, overflow to an infinity) that JavaScript
  uses, \<open>Fin\<close> is exact arithmetic.
\<close>

definition pow2 :: "int \<Rightarrow> real" where
  "pow2 e = (if 0 \<le> e then 2 ^ nat e else 1 / 2 ^ nat (- e))"

function binExpUp :: "real \<Rightarrow> int \<Rightarrow> int" where
  "binExpUp a e = (if 2 \<le> a then binExpUp (a / 2) (e + 1) else e)"
  by pat_completeness auto
termination
proof (relation "measure (\<lambda>(a, e). nat \<lceil>a\<rceil>)")
  show "wf (measure (\<lambda>(a, e). nat \<lceil>a\<rceil>))" by simp
next
  fix a :: real and e :: int
  assume "2 \<le> a"
  then have "\<lceil>a / 2\<rceil> \<le> \<lceil>a - 1\<rceil>" by (intro ceiling_mono) simp
  moreover have "0 < \<lceil>a\<rceil>" using \<open>2 \<le> a\<close> by (simp add: ceiling_less_iff less_ceiling_iff)
  ultimately show "((a / 2, e + 1), (a, e)) \<in> measure (\<lambda>(a, e). nat \<lceil>a\<rceil>)"
    by simp
qed

function binExpDown :: "real \<Rightarrow> int \<Rightarrow> int" where
  "binExpDown a e = (if a < 1 \<and> - 1022 < e then binExpDown (a * 2) (e - 1) else e)"
  by pat_completeness auto
termination
  by (relation "measure (\<lambda>(a, e). nat (e + 1022))") auto

declare binExpUp.simps [simp del]
declare binExpDown.simps [simp del]

text \<open>
  For \<open>a > 0\<close>: the exponent \<open>e\<close> with \<open>2 ^ e \<le> a < 2 ^ (e + 1)\<close>, and \<open>- 1022\<close> (the
  exponent of the subnormal numbers) when \<open>a\<close> is below \<open>2 ^ - 1022\<close>.
\<close>

definition binExp :: "real \<Rightarrow> int" where
  "binExp a = (if 1 \<le> a then binExpUp a 0 else binExpDown a 0)"

definition roundHalfEven :: "real \<Rightarrow> int" where
  "roundHalfEven x =
     (let f = \<lfloor>x\<rfloor>; d = x - of_int f
      in if d < 1 / 2 then f else if 1 / 2 < d then f + 1 else if even f then f else f + 1)"

text \<open>The spacing of the doubles around \<open>a > 0\<close>, and \<open>a\<close> rounded to a multiple of it.\<close>

definition quantum :: "real \<Rightarrow> real" where
  "quantum a = pow2 (binExp a - 52)"

definition roundMag :: "real \<Rightarrow> real" where
  "roundMag a = of_int (roundHalfEven (a / quantum a)) * quantum a"

definition round64 :: "real \<Rightarrow> jsnum" where
  "round64 x =
     (if x = 0 then Fin 0
      else if 2 ^ 1024 \<le> roundMag \<bar>x\<bar> then (if x < 0 then NInf else PInf)
      else Fin (if x < 0 then - roundMag \<bar>x\<bar> else roundMag \<bar>x\<bar>))"

fun jneg :: "jsnum \<Rightarrow> jsnum" where
  "jneg NaN = NaN"
| "jneg PInf = NInf"
| "jneg NInf = PInf"
| "jneg (Fin x) = Fin (- x)"

text \<open>\<open>a + b\<close>\<close>

fun jadd :: "(real \<Rightarrow> jsnum) \<Rightarrow> jsnum \<Rightarrow> jsnum \<Rightarrow> jsnum" where
  "jadd rnd (Fin x) (Fin y) = rnd (x + y)"
| "jadd rnd NaN b = NaN"
| "jadd rnd a NaN = NaN"
| "jadd rnd PInf NInf = NaN"
| "jadd rnd NInf PInf = NaN"
| "jadd rnd PInf b = PInf"
| "jadd rnd NInf b = NInf"
| "jadd rnd a PInf = PInf"
| "jadd rnd a NInf = NInf"

text \<open>The sign of a number that is not NaN, as \<open>-1\<close>, \<open>0\<close> or \<open>1\<close>.\<close>

fun jsign :: "jsnum \<Rightarrow> int" where
  "jsign NaN = 0"
| "jsign PInf = 1"
| "jsign NInf = - 1"
| "jsign (Fin x) = (if x < 0 then - 1 else if x = 0 then 0 else 1)"

text \<open>\<open>a * b\<close>\<close>

fun jmul :: "(real \<Rightarrow> jsnum) \<Rightarrow> jsnum \<Rightarrow> jsnum \<Rightarrow> jsnum" where
  "jmul rnd (Fin x) (Fin y) = rnd (x * y)"
| "jmul rnd NaN b = NaN"
| "jmul rnd a NaN = NaN"
| "jmul rnd a b =
     (if jsign a * jsign b = 0 then NaN else if jsign a * jsign b = 1 then PInf else NInf)"

text \<open>
  \<open>a / b\<close>. The program divides only when the divisor is greater than 0; a zero divisor is
  read as \<open>+0\<close>.
\<close>

fun jdiv :: "(real \<Rightarrow> jsnum) \<Rightarrow> jsnum \<Rightarrow> jsnum \<Rightarrow> jsnum" where
  "jdiv rnd (Fin x) (Fin y) =
     (if y = 0 then (if x = 0 then NaN else if 0 < x then PInf else NInf) else rnd (x / y))"
| "jdiv rnd NaN b = NaN"
| "jdiv rnd a NaN = NaN"
| "jdiv rnd (Fin x) b = Fin 0"
| "jdiv rnd a (Fin y) = (if (jsign a = 1) = (0 \<le> y) then PInf else NInf)"
| "jdiv rnd a b = NaN"

text \<open>\<open>a < b\<close>; \<open>a > b\<close> is \<open>b < a\<close>.\<close>

fun jless :: "jsnum \<Rightarrow> jsnum \<Rightarrow> bool" where
  "jless (Fin x) (Fin y) = (x < y)"
| "jless NaN b = False"
| "jless a NaN = False"
| "jless PInf b = False"
| "jless a NInf = False"
| "jless a b = True"

section \<open>Header canonicalizer and row extractor (sheets.js)\<close>

text \<open>
  \<open>toUpperCase\<close>, \<open>toLowerCase\<close> and \<open>normalize("NFD")\<close> are functions of the JavaScript
  library, defined by the tables of Unicode. They are parameters of the model.
  \<open>asciiUnicode\<close> is what they do on a string of ASCII characters: the letters change
  case, and no ASCII character decomposes. It is also what they do when combining marks
  follow letters of such a string: a letter and its mark are decomposed already, and a
  mark has no other case.
\<close>

record unicode =
  toUpperCase :: "jsstring \<Rightarrow> jsstring"
  toLowerCase :: "jsstring \<Rightarrow> jsstring"
  normalizeNFD :: "jsstring \<Rightarrow> jsstring"

definition asciiUpper :: "jschar \<Rightarrow> jschar" where
  "asciiUpper c = (if 97 \<le> c \<and> c \<le> 122 then c - 32 else c)"

definition asciiLower :: "jschar \<Rightarrow> jschar" where
  "asciiLower c = (if 65 \<le> c \<and> c \<le> 90 then c + 32 else c)"

definition asciiUnicode :: unicode where
  "asciiUnicode =
     \<lparr>toUpperCase = map asciiUpper, toLowerCase = map asciiLower, normalizeNFD = (\<lambda>s. s)\<rparr>"

text \<open>
  \<open>latin1Unicode\<close> is what the three functions do on a string of Latin-1 characters (the
  code units below 256, none of which is a combining mark) and on the upper case of such
  a string: the accented letters change case like the plain ones, the sharp s becomes
  \<open>SS\<close>, and NFD splits an accented letter into its base letter and a combining mark.
\<close>

definition latin1Upper :: "jschar \<Rightarrow> jsstring" where
  "latin1Upper c =
     (if (97 \<le> c \<and> c \<le> 122) \<or> (224 \<le> c \<and> c \<le> 254 \<and> c \<noteq> 247) then [c - 32]
      else if c = 223 then [83, 83]
      else if c = 255 then [376]
      else if c = 181 then [924]
      else [c])"

definition latin1Lower :: "jschar \<Rightarrow> jschar" where
  "latin1Lower c =
     (if (65 \<le> c \<and> c \<le> 90) \<or> (192 \<le> c \<and> c \<le> 222 \<and> c \<noteq> 215) then c + 32
      else if c = 376 then 255
      else if c = 924 then 956
      else c)"

definition latin1Decomposition :: "(jschar \<times> jsstring) list" where
  "latin1Decomposition =
     [(192, [65, 768]), (193, [65, 769]), (194, [65, 770]), (195, [65, 771]), (196, [65, 776]),
      (197, [65, 778]), (199, [67, 807]), (200, [69, 768]), (201, [69, 769]), (202, [69, 770]),
      (203, [69, 776]), (204, [73, 768]), (205, [73, 769]), (206, [73, 770]), (207, [73, 776]),
      (209, [78, 771]), (210, [79, 768]), (211, [79, 769]), (212, [79, 770]), (213, [79, 771]),
      (214, [79, 776]), (217, [85, 768]), (218, [85, 769]), (219, [85, 770]), (220, [85, 776]),
      (221, [89, 769]), (224, [97, 768]), (225, [97, 769]), (226, [97, 770]), (227, [97, 771]),
      (228, [97, 776]), (229, [97, 778]), (231, [99, 807]), (232, [101, 768]), (233, [101, 769]),
      (234, [101, 770]), (235, [101, 776]), (236, [105, 768]), (237, [105, 769]),
      (238, [105, 770]), (239, [105, 776]), (241, [110, 771]), (242, [111, 768]),
      (243, [111, 769]), (244, [111, 770]), (245, [111, 771]), (246, [111, 776]),
      (249, [117, 768]), (250, [117, 769]), (251, [117, 770]), (252, [117, 776]),
      (253, [121, 769]), (255, [121, 776]), (376, [89, 776])]"

definition latin1NFD :: "jschar \<Rightarrow> jsstring" where
  "latin1NFD c = (case map_of latin1Decomposition c of Some d \<Rightarrow> d | None \<Rightarrow> [c])"

definition latin1Unicode :: unicode where
  "latin1Unicode =
     \<lparr>toUpperCase = (\<lambda>s. concat (map latin1Upper s)), toLowerCase = map latin1Lower,
      normalizeNFD = (\<lambda>s. concat (map latin1NFD s))\<rparr>"

text \<open>\<open>.replace(/[\u0300-\u036f]/g, "")\<close>: the combining diacritical marks.\<close>

definition stripMarks :: "jsstring \<Rightarrow> jsstring" where
  "stripMarks s = filter (\<lambda>c. \<not> (768 \<le> c \<and> c \<le> 879)) s"

text \<open>\<open>.replace(/\s+/g, " ")\<close>: every maximal run of white space becomes one space.\<close>

function collapseSpaces :: "jsstring \<Rightarrow> jsstring" where
  "collapseSpaces [] = []"
| "collapseSpaces (c # cs) =
     (if isWhiteSpace c then 32 # collapseSpaces (dropWhile isWhiteSpace cs)
      else c # collapseSpaces cs)"
  by pat_completeness auto
termination
  by (relation "measure length") (auto simp: length_dropWhile_le less_Suc_eq_le)

text \<open>
  \<^verbatim>\<open>
  function norm(cell) {
    return String(cell || "").toUpperCase().normalize("NFD")
      .replace(/[\u0300-\u036f]/g, "").replace(/\s+/g, " ").trim();
  }
  \<close>
  A cell is a string, so \<open>String(cell || "")\<close> is the cell. The function is named
  \<open>normCell\<close> here.
\<close>

definition normCell :: "unicode \<Rightarrow> jsstring \<Rightarrow> jsstring" where
  "normCell U cell = trim (collapseSpaces (stripMarks (normalizeNFD U (toUpperCase U cell))))"

text \<open>
  \<^verbatim>\<open>
  function canonicalHeaderName(raw) {
    const n = norm(raw);
    if (n.includes("DATA APOSTA")) return "DATA APOSTA";
    if (n === "LUCRO") return "LUCRO";
    if (n === "STAKE") return "STAKE";
    if (n === "CASA" || n.includes("BOOK")) return "CASA";
    if (n === "ESPORTE" || n === "ESPORTES") return "ESPORTE";
    if (n.includes("DATA EVENTO") || n.includes("DATA JOGO")) return "DATA EVENTO";
    if (n === "EVENTO" || n === "PARTIDA" || n.includes("MATCH")) return "EVENTO";
    return String(raw || "").trim();
  }
  \<close>
\<close>

definition canonicalHeaderName :: "unicode \<Rightarrow> jsstring \<Rightarrow> jsstring" where
  "canonicalHeaderName U raw =
     (let n = normCell U raw in
      if includesStr n (jstr ''DATA APOSTA'') then jstr ''DATA APOSTA''
      else if n = jstr ''LUCRO'' then jstr ''LUCRO''
      else if n = jstr ''STAKE'' then jstr ''STAKE''
      else if n = jstr ''CASA'' \<or> includesStr n (jstr ''BOOK'') then jstr ''CASA''
      else if n = jstr ''ESPORTE'' \<or> n = jstr ''ESPORTES'' then jstr ''ESPORTE''
      else if includesStr n (jstr ''DATA EVENTO'') \<or> includesStr n (jstr ''DATA JOGO'')
        then jstr ''DATA EVENTO''
      else if n = jstr ''EVENTO'' \<or> n = jstr ''PARTIDA'' \<or> includesStr n (jstr ''MATCH'')
        then jstr ''EVENTO''
      else trim raw)"

text \<open>
  The rules of the header canonicalizer as the specification lists them: a table of
  (condition on the normalized text, canonical name), read top to bottom; the first row
  whose condition holds gives the name, and no row gives the original text trimmed.
\<close>

definition specHeaderRules :: "((jsstring \<Rightarrow> bool) \<times> jsstring) list" where
  "specHeaderRules =
     [(\<lambda>n. includesStr n (jstr ''DATA APOSTA''), jstr ''DATA APOSTA''),
      (\<lambda>n. n = jstr ''LUCRO'', jstr ''LUCRO''),
      (\<lambda>n. n = jstr ''STAKE'', jstr ''STAKE''),
      (\<lambda>n. n = jstr ''CASA'' \<or> includesStr n (jstr ''BOOK''), jstr ''CASA''),
      (\<lambda>n. n = jstr ''ESPORTE'' \<or> n = jstr ''ESPORTES'', jstr ''ESPORTE''),
      (\<lambda>n. includesStr n (jstr ''DATA EVENTO'') \<or> includesStr n (jstr ''DATA JOGO''),
         jstr ''DATA EVENTO''),
      (\<lambda>n. n = jstr ''EVENTO'' \<or> n = jstr ''PARTIDA'' \<or> includesStr n (jstr ''MATCH''),
         jstr ''EVENTO'')]"

text \<open>
  The normalization as the specification words it: upper case; diacritics stripped (the
  text decomposed, without its combining marks U+0300 to U+036F); runs of white space
  collapsed to one space and the text trimmed, that is, its words (the maximal runs of
  characters that are no white space) joined by single spaces.
\<close>

function specWords :: "jsstring \<Rightarrow> jsstring list" where
  "specWords s =
     (let t = dropWhile isWhiteSpace s
      in if t = [] then []
         else takeWhile (\<lambda>c. \<not> isWhiteSpace c) t #
              specWords (dropWhile (\<lambda>c. \<not> isWhiteSpace c) t))"
  by pat_completeness auto
termination
proof (relation "measure length")
  show "wf (measure length)" by simp
next
  fix s t :: jsstring
  assume t: "t = dropWhile isWhiteSpace s" and ne: "t \<noteq> []"
  then have "\<not> isWhiteSpace (hd t)" by (metis hd_dropWhile)
  then have "takeWhile (\<lambda>c. \<not> isWhiteSpace c) t \<noteq> []" using ne by (cases t) simp_all
  then have "length (dropWhile (\<lambda>c. \<not> isWhiteSpace c) t) < length t"
    by (metis length_append length_greater_0_conv less_add_same_cancel2 takeWhile_dropWhile_id)
  moreover have "length t \<le> length s" by (simp add: t length_dropWhile_le)
  ultimately show "(dropWhile (\<lambda>c. \<not> isWhiteSpace c) t, s) \<in> measure length" by simp
qed

declare specWords.simps [simp del]

fun specJoin :: "jsstring list \<Rightarrow> jsstring" where
  "specJoin [] = []"
| "specJoin [w] = w"
| "specJoin (w # v # ws) = w @ [32] @ specJoin (v # ws)"

definition specStripDiacritics :: "unicode \<Rightarrow> jsstring \<Rightarrow> jsstring" where
  "specStripDiacritics U s = filter (\<lambda>c. c \<notin> {768..879}) (normalizeNFD U s)"

definition specNormalize :: "unicode \<Rightarrow> jsstring \<Rightarrow> jsstring" where
  "specNormalize U raw = specJoin (specWords (specStripDiacritics U (toUpperCase U raw)))"

definition specCanonical :: "unicode \<Rightarrow> jsstring \<Rightarrow> jsstring" where
  "specCanonical U raw =
     (case find (\<lambda>rule. fst rule (specNormalize U raw)) specHeaderRules of
        Some rule \<Rightarrow> snd rule
      | None \<Rightarrow> trim raw)"

text \<open>
  A sheet row as the extractor builds it: an object from column name to cell text. A
  missing column reads as \<open>undefined\<close>.
\<close>

type_synonym row = "jsstring \<rightharpoonup> jsstring"

definition cell :: "row \<Rightarrow> jsstring \<Rightarrow> jsval" where
  "cell r k = (case r k of None \<Rightarrow> JUndefined | Some s \<Rightarrow> JStr s)"

text \<open>\<open>values.findIndex(p)\<close>, \<open>None\<close> for \<open>-1\<close>.\<close>

fun findIndex :: "('a \<Rightarrow> bool) \<Rightarrow> 'a list \<Rightarrow> nat option" where
  "findIndex p [] = None"
| "findIndex p (x # xs) =
     (if p x then Some 0 else (case findIndex p xs of None \<Rightarrow> None | Some i \<Rightarrow> Some (Suc i)))"

definition isHeaderRow :: "unicode \<Rightarrow> jsstring list \<Rightarrow> bool" where
  "isHeaderRow U r = list_ex (\<lambda>c. includesStr (normCell U c) (jstr ''DATA APOSTA'')) r"

text \<open>
  \<open>header.forEach((col, idx) => { if (!col) return; obj[col] = row[idx] ?? ""; })\<close>.
  Assigning to \<open>__proto__\<close> with a string creates no property.
\<close>

fun projectRow :: "jsstring list \<Rightarrow> nat \<Rightarrow> jsstring list \<Rightarrow> row \<Rightarrow> row" where
  "projectRow [] idx r obj = obj"
| "projectRow (col # cols) idx r obj =
     projectRow cols (Suc idx) r
       (if col = [] \<or> col = jstr ''__proto__'' then obj
        else obj(col \<mapsto> (if idx < length r then r ! idx else [])))"

text \<open>
  \<^verbatim>\<open>
  function extractRowsFromValues(values, mainHeader = null) {
    if (!values || values.length === 0) return { header: mainHeader, rows: [] };
    const headerIndex = values.findIndex((row) =>
      row.some((cell) => norm(cell).includes("DATA APOSTA")));
    if (headerIndex === -1) return { header: mainHeader, rows: [] };
    const headerRow = values[headerIndex];
    const headerRaw = mainHeader || headerRow;
    const header = headerRaw.map((c) => canonicalHeaderName(c));
    const dataRows = values.slice(headerIndex + 1)
      .filter((row) => row.some((cell) => String(cell).trim() !== ""));
    const rows = dataRows.map((row) => { ... });
    return { header, rows };
  }
  \<close>
  The header is \<open>None\<close> for \<open>null\<close>; an array, also the empty one, is truthy.
\<close>

definition extractRowsFromValues ::
  "unicode \<Rightarrow> jsstring list list \<Rightarrow> jsstring list option \<Rightarrow> jsstring list option \<times> row list"
where
  "extractRowsFromValues U values mainHeader =
     (if values = [] then (mainHeader, [])
      else (case findIndex (isHeaderRow U) values of
              None \<Rightarrow> (mainHeader, [])
            | Some headerIndex \<Rightarrow>
                let headerRow = values ! headerIndex;
                    headerRaw = (case mainHeader of Some h \<Rightarrow> h | None \<Rightarrow> headerRow);
                    header = map (canonicalHeaderName U) headerRaw;
                    dataRows = filter (list_ex (\<lambda>c. trim c \<noteq> []))
                                 (drop (headerIndex + 1) values);
                    rows = map (\<lambda>r. projectRow header 0 r Map.empty) dataRows
                in (Some header, rows)))"

text \<open>
  The loop of \<open>getSheetRows\<close> over the tabs of a spreadsheet, for a range without a tab
  name. A tab is the grid its read returned, or \<open>None\<close> when the tab has no title or its
  read failed (the loop goes on to the next tab).
  \<^verbatim>\<open>
  const values = res.data.values || [];
  if (!values.length) continue;
  const { header, rows } = extractRowsFromValues(values, mainHeader);
  if (!mainHeader && header) mainHeader = header;
  allRows = allRows.concat(rows);
  \<close>
\<close>

fun tabsLoop ::
  "unicode \<Rightarrow> jsstring list list option list \<Rightarrow> row list \<times> jsstring list option \<Rightarrow>
     row list \<times> jsstring list option"
where
  "tabsLoop U [] st = st"
| "tabsLoop U (None # tabs) st = tabsLoop U tabs st"
| "tabsLoop U (Some values # tabs) (allRows, mainHeader) =
     (if values = [] then tabsLoop U tabs (allRows, mainHeader)
      else let (header, rows) = extractRowsFromValues U values mainHeader
           in tabsLoop U tabs
                (allRows @ rows, (if mainHeader = None then header else mainHeader)))"


section \<open>Aggregator (index.js)\<close>

text \<open>A normalized record, as the handlers push it to \<open>data\<close>.\<close>

record betrecord =
  dataAposta :: "jsstring option"
  operador :: jsstring
  casa :: jsstring
  esporte :: jsstring
  evento :: jsstring
  dataEvento :: jsstring
  stake :: jsnum
  lucro :: jsnum

text \<open>An entry (\<open>grupo\<close>): the value the handlers keep in \<open>gruposMap\<close>.\<close>

record entry =
  g_dataAposta :: "jsstring option"
  g_operador :: jsstring
  g_evento :: jsstring
  g_esporte :: jsstring
  lucroTotal :: jsnum
  stakeTotal :: jsnum

subsection \<open>Objects and maps used as dictionaries\<close>

text \<open>
  A dictionary is the list of its own properties in the order of their creation. That
  is the order of a \<open>Map\<close>. For a plain object \<open>{}\<close>, \<open>Object.values\<close> and
  \<open>Object.entries\<close> list the keys that are array indices first, in ascending numeric
  order, and then the other keys in the order of their creation; and a read
  \<open>obj[k]\<close> of a key that is no own property finds the property that \<open>Object.prototype\<close>
  has under that name, if any.
\<close>

type_synonym 'v dict = "(jsstring \<times> 'v) list"

definition hasOwn :: "jsstring \<Rightarrow> 'v dict \<Rightarrow> bool" where
  "hasOwn k obj = (map_of obj k \<noteq> None)"

definition updateOwn :: "jsstring \<Rightarrow> ('v \<Rightarrow> 'v) \<Rightarrow> 'v dict \<Rightarrow> 'v dict" where
  "updateOwn k f obj = map (\<lambda>(k', v). if k' = k then (k', f v) else (k', v)) obj"

definition objectPrototypeKeys :: "jsstring list" where
  "objectPrototypeKeys =
     map jstr [''constructor'', ''__defineGetter__'', ''__defineSetter__'', ''hasOwnProperty'',
       ''__lookupGetter__'', ''__lookupSetter__'', ''isPrototypeOf'', ''propertyIsEnumerable'',
       ''toString'', ''valueOf'', ''__proto__'', ''toLocaleString'']"

definition isArrayIndex :: "jsstring \<Rightarrow> bool" where
  "isArrayIndex k \<longleftrightarrow>
     k \<noteq> [] \<and> list_all isDigit k \<and> (hd k \<noteq> 48 \<or> length k = 1) \<and> digitsVal 10 k < 4294967295"

definition ownPropertyOrder :: "'v dict \<Rightarrow> 'v dict" where
  "ownPropertyOrder obj =
     sort_key (\<lambda>p. digitsVal 10 (fst p)) (filter (\<lambda>p. isArrayIndex (fst p)) obj) @
     filter (\<lambda>p. \<not> isArrayIndex (fst p)) obj"

subsection \<open>\<open>buildStatsFromData\<close>\<close>

text \<open>\<open>const EPS = 1e-6\<close>: the literal, rounded to a double.\<close>

definition EPS :: "(real \<Rightarrow> jsnum) \<Rightarrow> jsnum" where
  "EPS rnd = rnd (1 / 1000000)"

text \<open>\<open>den > 0 ? (num / den) * 100 : 0\<close>\<close>

definition percentOf :: "(real \<Rightarrow> jsnum) \<Rightarrow> jsnum \<Rightarrow> jsnum \<Rightarrow> jsnum" where
  "percentOf rnd num den =
     (if jless (Fin 0) den then jmul rnd (jdiv rnd num den) (Fin 100) else Fin 0)"

record overview =
  totalLucro :: jsnum
  totalStake :: jsnum
  totalApostas :: nat
  yieldPercent :: jsnum
  greenPercent :: jsnum
  redPercent :: jsnum

text \<open>
  \<^verbatim>\<open>
  const totalEntradas = grupos.length;
  const totalStake = data.reduce((sum, d) => sum + d.stake, 0);
  const totalLucro = data.reduce((sum, d) => sum + d.lucro, 0);
  const yieldPercent = totalStake > 0 ? (totalLucro / totalStake) * 100 : 0;
  const EPS = 1e-6;
  const greens = grupos.filter((g) => g.lucroTotal > EPS).length;
  const reds = grupos.filter((g) => g.lucroTotal < -EPS).length;
  const totalResolvidas = greens + reds;
  const greenPercent = totalResolvidas > 0 ? (greens / totalResolvidas) * 100 : 0;
  const redPercent = totalResolvidas > 0 ? (reds / totalResolvidas) * 100 : 0;
  \<close>
\<close>

definition isGreen :: "(real \<Rightarrow> jsnum) \<Rightarrow> entry \<Rightarrow> bool" where
  "isGreen rnd g = jless (EPS rnd) (lucroTotal g)"

definition isRed :: "(real \<Rightarrow> jsnum) \<Rightarrow> entry \<Rightarrow> bool" where
  "isRed rnd g = jless (lucroTotal g) (jneg (EPS rnd))"

definition sumStake :: "(real \<Rightarrow> jsnum) \<Rightarrow> betrecord list \<Rightarrow> jsnum" where
  "sumStake rnd data = foldl (\<lambda>sum d. jadd rnd sum (stake d)) (Fin 0) data"

definition sumLucro :: "(real \<Rightarrow> jsnum) \<Rightarrow> betrecord list \<Rightarrow> jsnum" where
  "sumLucro rnd data = foldl (\<lambda>sum d. jadd rnd sum (lucro d)) (Fin 0) data"

definition greens :: "(real \<Rightarrow> jsnum) \<Rightarrow> entry list \<Rightarrow> nat" where
  "greens rnd grupos = length (filter (isGreen rnd) grupos)"

definition reds :: "(real \<Rightarrow> jsnum) \<Rightarrow> entry list \<Rightarrow> nat" where
  "reds rnd grupos = length (filter (isRed rnd) grupos)"

definition totalResolvidas :: "(real \<Rightarrow> jsnum) \<Rightarrow> entry list \<Rightarrow> nat" where
  "totalResolvidas rnd grupos = greens rnd grupos + reds rnd grupos"

definition buildOverview :: "(real \<Rightarrow> jsnum) \<Rightarrow> betrecord list \<Rightarrow> entry list \<Rightarrow> overview" where
  "buildOverview rnd data grupos =
     \<lparr>totalLucro = sumLucro rnd data,
      totalStake = sumStake rnd data,
      totalApostas = length grupos,
      yieldPercent = percentOf rnd (sumLucro rnd data) (sumStake rnd data),
      greenPercent =
        percentOf rnd (Fin (real (greens rnd grupos))) (Fin (real (totalResolvidas rnd grupos))),
      redPercent =
        percentOf rnd (Fin (real (reds rnd grupos))) (Fin (real (totalResolvidas rnd grupos)))\<rparr>"

text \<open>
  \<^verbatim>\<open>
  const lucroPorDiaMap = {};
  for (const d of data) {
    if (!d.dataAposta) continue;
    if (!lucroPorDiaMap[d.dataAposta]) lucroPorDiaMap[d.dataAposta] = 0;
    lucroPorDiaMap[d.dataAposta] += d.lucro;
  }
  const lucroPorDia = Object.entries(lucroPorDiaMap)
    .map(([date, lucro]) => ({ date, lucro }))
    .sort((a, b) => (a.date < b.date ? -1 : 1));
  \<close>
  The value under a date is a number; it is reset to 0 before the addition when it is
  falsy (0 or NaN). Under a key that \<open>Object.prototype\<close> has, the first read finds a
  function or an object: nothing is reset, and \<open>+=\<close> stores a text (\<open>DayText\<close>, its
  characters are not modelled), to which the later \<open>+=\<close> append. An assignment to
  \<open>__proto__\<close> with a text creates no property. The handlers only pass dates
  \<open>dddd-dd-dd\<close>.
\<close>

datatype dayval = DayNum jsnum | DayText

definition dayAdd :: "(real \<Rightarrow> jsnum) \<Rightarrow> jsnum \<Rightarrow> dayval \<Rightarrow> dayval" where
  "dayAdd rnd l v =
     (case v of
        DayText \<Rightarrow> DayText
      | DayNum x \<Rightarrow> DayNum (jadd rnd (if x = Fin 0 \<or> x = NaN then Fin 0 else x) l))"

definition addToDay :: "(real \<Rightarrow> jsnum) \<Rightarrow> jsstring \<Rightarrow> jsnum \<Rightarrow> dayval dict \<Rightarrow> dayval dict" where
  "addToDay rnd k l obj =
     (if k = jstr ''__proto__'' then obj
      else updateOwn k (dayAdd rnd l)
             (if hasOwn k obj then obj
              else obj @ [(k, if k \<in> set objectPrototypeKeys then DayText else DayNum (Fin 0))]))"

definition lucroPorDiaMap :: "(real \<Rightarrow> jsnum) \<Rightarrow> betrecord list \<Rightarrow> dayval dict" where
  "lucroPorDiaMap rnd data =
     foldl (\<lambda>obj d.
        case dataAposta d of
          None \<Rightarrow> obj
        | Some k \<Rightarrow> if k = [] then obj else addToDay rnd k (lucro d) obj) [] data"

definition buildLucroPorDia :: "(real \<Rightarrow> jsnum) \<Rightarrow> betrecord list \<Rightarrow> (jsstring \<times> dayval) list" where
  "buildLucroPorDia rnd data = sort_key fst (ownPropertyOrder (lucroPorDiaMap rnd data))"

text \<open>
  The three breakdowns use the same loop:
  \<^verbatim>\<open>
  const casaMap = {};
  for (const d of data) {
    if (!d.casa) continue;
    if (!casaMap[d.casa]) {
      casaMap[d.casa] = { casa: d.casa, entradas: 0, lucro: 0, stake_total: 0 };
    }
    const c = casaMap[d.casa];
    c.entradas += 1;
    c.lucro += d.lucro;
    c.stake_total += d.stake;
  }
  const porCasa = Object.values(casaMap).map((c) => ({
    ...c, yield_percent: c.stake_total > 0 ? (c.lucro / c.stake_total) * 100 : 0 }));
  \<close>
  Under a key that \<open>Object.prototype\<close> has, \<open>casaMap[d.casa]\<close> is truthy at once: no own
  property is created, and the three updates go to the inherited function or object, so
  \<open>casaMap\<close> is as before.
\<close>

record bucket =
  bname :: jsstring
  entradas :: nat
  b_lucro :: jsnum
  stake_total :: jsnum

record breakdown = bucket +
  yield_percent :: jsnum

definition addToBucket ::
  "(real \<Rightarrow> jsnum) \<Rightarrow> jsstring \<Rightarrow> jsnum \<Rightarrow> jsnum \<Rightarrow> bucket dict \<Rightarrow> bucket dict"
where
  "addToBucket rnd k l s obj =
     (if k \<in> set objectPrototypeKeys then obj
      else updateOwn k
             (\<lambda>b. b\<lparr>entradas := entradas b + 1,
                     b_lucro := jadd rnd (b_lucro b) l,
                     stake_total := jadd rnd (stake_total b) s\<rparr>)
             (if hasOwn k obj then obj
              else obj @ [(k, \<lparr>bname = k, entradas = 0, b_lucro = Fin 0, stake_total = Fin 0\<rparr>)]))"

definition withYield :: "(real \<Rightarrow> jsnum) \<Rightarrow> bucket \<Rightarrow> breakdown" where
  "withYield rnd b =
     \<lparr>bname = bname b, entradas = entradas b, b_lucro = b_lucro b, stake_total = stake_total b,
      yield_percent = percentOf rnd (b_lucro b) (stake_total b)\<rparr>"

definition objectValues :: "(real \<Rightarrow> jsnum) \<Rightarrow> bucket dict \<Rightarrow> breakdown list" where
  "objectValues rnd obj = map (\<lambda>p. withYield rnd (snd p)) (ownPropertyOrder obj)"

definition operadorMap :: "(real \<Rightarrow> jsnum) \<Rightarrow> entry list \<Rightarrow> bucket dict" where
  "operadorMap rnd grupos =
     foldl (\<lambda>obj g. addToBucket rnd (g_operador g) (lucroTotal g) (stakeTotal g) obj) [] grupos"

definition casaMap :: "(real \<Rightarrow> jsnum) \<Rightarrow> betrecord list \<Rightarrow> bucket dict" where
  "casaMap rnd data =
     foldl (\<lambda>obj d. if casa d = [] then obj
                    else addToBucket rnd (casa d) (lucro d) (stake d) obj) [] data"

definition esporteMap :: "(real \<Rightarrow> jsnum) \<Rightarrow> betrecord list \<Rightarrow> bucket dict" where
  "esporteMap rnd data =
     foldl (\<lambda>obj d. if esporte d = [] then obj
                    else addToBucket rnd (esporte d) (lucro d) (stake d) obj) [] data"

record stats =
  overview :: overview
  lucroPorDia :: "(jsstring \<times> dayval) list"
  porOperador :: "breakdown list"
  porCasa :: "breakdown list"
  porEsporte :: "breakdown list"

definition buildStatsFromData :: "(real \<Rightarrow> jsnum) \<Rightarrow> betrecord list \<Rightarrow> entry list \<Rightarrow> stats" where
  "buildStatsFromData rnd data grupos =
     \<lparr>overview = buildOverview rnd data grupos,
      lucroPorDia = buildLucroPorDia rnd data,
      porOperador = objectValues rnd (operadorMap rnd grupos),
      porCasa = objectValues rnd (casaMap rnd data),
      porEsporte = objectValues rnd (esporteMap rnd data)\<rparr>"

subsection \<open>Grouping records into entries\<close>

text \<open>
  \<^verbatim>\<open>
  const key = `${d.dataAposta || ""}|${(d.evento || "").toLowerCase().trim()}|${d.operador}`;
  if (!gruposMap.has(key)) {
    gruposMap.set(key, { dataAposta: d.dataAposta, operador: d.operador, evento: d.evento,
                         esporte: d.esporte, lucroTotal: 0, stakeTotal: 0 });
  }
  const g = gruposMap.get(key);
  g.lucroTotal += d.lucro;
  g.stakeTotal += d.stake;
  \<close>
\<close>

definition groupKey :: "unicode \<Rightarrow> betrecord \<Rightarrow> jsstring" where
  "groupKey U d =
     (case dataAposta d of None \<Rightarrow> [] | Some s \<Rightarrow> s) @ [124] @
     trim (toLowerCase U (evento d)) @ [124] @ operador d"

definition addToGrupos :: "(real \<Rightarrow> jsnum) \<Rightarrow> unicode \<Rightarrow> betrecord \<Rightarrow> entry dict \<Rightarrow> entry dict" where
  "addToGrupos rnd U d gruposMap =
     (let key = groupKey U d
      in updateOwn key
           (\<lambda>g. g\<lparr>lucroTotal := jadd rnd (lucroTotal g) (lucro d),
                   stakeTotal := jadd rnd (stakeTotal g) (stake d)\<rparr>)
           (if hasOwn key gruposMap then gruposMap
            else gruposMap @
              [(key, \<lparr>g_dataAposta = dataAposta d, g_operador = operador d, g_evento = evento d,
                      g_esporte = esporte d, lucroTotal = Fin 0, stakeTotal = Fin 0\<rparr>)]))"

definition groupEntries :: "(real \<Rightarrow> jsnum) \<Rightarrow> unicode \<Rightarrow> betrecord list \<Rightarrow> entry dict" where
  "groupEntries rnd U data = foldl (\<lambda>gruposMap d. addToGrupos rnd U d gruposMap) [] data"

section \<open>API handlers (index.js)\<close>

record sheet =
  sheet_id :: nat
  sheet_name :: jsstring
  google_sheet_id :: jsstring
  range :: jsstring

text \<open>The query parameters \<open>operador\<close>, \<open>from\<close> and \<open>to\<close>: a text, or \<open>None\<close> when absent.\<close>

record query =
  q_operador :: "jsstring option"
  q_from :: "jsstring option"
  q_to :: "jsstring option"

text \<open>\<open>(sheet.name || "SEM OPERADOR").trim()\<close>\<close>

definition operadorOf :: "sheet \<Rightarrow> jsstring" where
  "operadorOf sh = trim (if sheet_name sh = [] then jstr ''SEM OPERADOR'' else sheet_name sh)"

text \<open>\<open>r["CASA"] || ""\<close>\<close>

definition textOr :: "row \<Rightarrow> jsstring \<Rightarrow> jsstring" where
  "textOr r k = (case r k of None \<Rightarrow> [] | Some s \<Rightarrow> s)"

text \<open>\<open>operador && op !== operador\<close>\<close>

definition otherOperador :: "query \<Rightarrow> jsstring \<Rightarrow> bool" where
  "otherOperador q op =
     (case q_operador q of None \<Rightarrow> False | Some wanted \<Rightarrow> wanted \<noteq> [] \<and> op \<noteq> wanted)"

text \<open>
  \<open>(from && dataApostaISO < from) || (to && dataApostaISO > to)\<close>; strings compare by
  code units, a proper prefix being smaller.
\<close>

definition outOfRange :: "query \<Rightarrow> jsstring \<Rightarrow> bool" where
  "outOfRange q dataApostaISO =
     ((case q_from q of None \<Rightarrow> False | Some lo \<Rightarrow> lo \<noteq> [] \<and> dataApostaISO < lo) \<or>
      (case q_to q of None \<Rightarrow> False | Some hi \<Rightarrow> hi \<noteq> [] \<and> hi < dataApostaISO))"

definition makeRecord :: "(real \<Rightarrow> jsnum) \<Rightarrow> jsstring \<Rightarrow> jsstring \<Rightarrow> row \<Rightarrow> betrecord" where
  "makeRecord rnd op dataApostaISO r =
     \<lparr>dataAposta = Some dataApostaISO,
      operador = op,
      casa = textOr r (jstr ''CASA''),
      esporte = textOr r (jstr ''ESPORTE''),
      evento = trim (textOr r (jstr ''EVENTO'')),
      dataEvento = trim (textOr r (jstr ''DATA EVENTO'')),
      stake = parseNumber rnd (cell r (jstr ''STAKE'')),
      lucro = parseNumber rnd (cell r (jstr ''LUCRO''))\<rparr>"

text \<open>
  \<open>GET /api/dashboard/overview\<close>: the loop over the rows of the sheet.
  \<^verbatim>\<open>
  for (const r of rows) {
    const dataApostaISO = parseDateISO(r["DATA APOSTA"]);
    if (!dataApostaISO) continue;
    ...
    const op = (sheet.name || "SEM OPERADOR").trim();
    if (operador && op !== operador) continue;
    if (from && dataApostaISO < from) continue;
    if (to && dataApostaISO > to) continue;
    data.push({ dataAposta: dataApostaISO, operador: op, casa, esporte, evento,
                dataEvento, stake, lucro });
  }
  \<close>
\<close>

fun overviewRows :: "(real \<Rightarrow> jsnum) \<Rightarrow> sheet \<Rightarrow> query \<Rightarrow> row list \<Rightarrow> betrecord list" where
  "overviewRows rnd sh q [] = []"
| "overviewRows rnd sh q (r # rows) =
     (case parseDateISO (cell r (jstr ''DATA APOSTA'')) of
        None \<Rightarrow> overviewRows rnd sh q rows
      | Some dataApostaISO \<Rightarrow>
          if dataApostaISO = [] then overviewRows rnd sh q rows
          else if otherOperador q (operadorOf sh) then overviewRows rnd sh q rows
          else if outOfRange q dataApostaISO then overviewRows rnd sh q rows
          else makeRecord rnd (operadorOf sh) dataApostaISO r # overviewRows rnd sh q rows)"

definition overviewStats :: "(real \<Rightarrow> jsnum) \<Rightarrow> unicode \<Rightarrow> sheet \<Rightarrow> query \<Rightarrow> row list \<Rightarrow> stats" where
  "overviewStats rnd U sh q rows =
     (let data = overviewRows rnd sh q rows;
          grupos = map snd (groupEntries rnd U data)
      in buildStatsFromData rnd data grupos)"

text \<open>
  \<open>GET /api/dashboard/overview-all\<close>: the loop over the sheets and, inside it, over the
  rows of a sheet; \<open>data\<close> and \<open>gruposMap\<close> are the state of both loops.
  \<^verbatim>\<open>
  for (const sheet of sheets) {
    const opName = (sheet.name || "SEM OPERADOR").trim();
    if (operador && opName !== operador) continue;
    const rows = await getCachedSheetRows(sheet);
    for (const r of rows) {
      const dataApostaISO = parseDateISO(r["DATA APOSTA"]);
      if (!dataApostaISO) continue;
      ...
      if (from && dataApostaISO < from) continue;
      if (to && dataApostaISO > to) continue;
      const d = { ... };
      data.push(d);
      const key = ...; if (!gruposMap.has(key)) { ... } ...
    }
  }
  \<close>
\<close>

fun overviewAllRows ::
  "(real \<Rightarrow> jsnum) \<Rightarrow> unicode \<Rightarrow> jsstring \<Rightarrow> query \<Rightarrow> row list \<Rightarrow>
     betrecord list \<times> entry dict \<Rightarrow> betrecord list \<times> entry dict"
where
  "overviewAllRows rnd U opName q [] st = st"
| "overviewAllRows rnd U opName q (r # rows) (data, gruposMap) =
     (case parseDateISO (cell r (jstr ''DATA APOSTA'')) of
        None \<Rightarrow> overviewAllRows rnd U opName q rows (data, gruposMap)
      | Some dataApostaISO \<Rightarrow>
          if dataApostaISO = [] then overviewAllRows rnd U opName q rows (data, gruposMap)
          else if outOfRange q dataApostaISO
            then overviewAllRows rnd U opName q rows (data, gruposMap)
          else let d = makeRecord rnd opName dataApostaISO r
               in overviewAllRows rnd U opName q rows
                    (data @ [d], addToGrupos rnd U d gruposMap))"

fun overviewAllSheets ::
  "(real \<Rightarrow> jsnum) \<Rightarrow> unicode \<Rightarrow> query \<Rightarrow> (sheet \<times> row list) list \<Rightarrow>
     betrecord list \<times> entry dict \<Rightarrow> betrecord list \<times> entry dict"
where
  "overviewAllSheets rnd U q [] st = st"
| "overviewAllSheets rnd U q ((sh, rows) # sheets) st =
     (if otherOperador q (operadorOf sh) then overviewAllSheets rnd U q sheets st
      else overviewAllSheets rnd U q sheets (overviewAllRows rnd U (operadorOf sh) q rows st))"

definition overviewAllStats ::
  "(real \<Rightarrow> jsnum) \<Rightarrow> unicode \<Rightarrow> query \<Rightarrow> (sheet \<times> row list) list \<Rightarrow> stats"
where
  "overviewAllStats rnd U q sheets =
     (let (data, gruposMap) = overviewAllSheets rnd U q sheets ([], [])
      in buildStatsFromData rnd data (map snd gruposMap))"

subsection \<open>The \<open>catch\<close> blocks\<close>













section \<open>Predicates used in the properties\<close>

text \<open>The row has a parseable \<open>DATA APOSTA\<close> cell.\<close>

definition hasDate :: "row \<Rightarrow> bool" where
  "hasDate r = (parseDateISO (cell r (jstr ''DATA APOSTA'')) \<noteq> None)"

text \<open>
  The date shape of the specification: exactly two digits, \<open>/\<close>, two digits, \<open>/\<close>, four
  digits; and the rearrangement of such a text \<open>DD/MM/YYYY\<close> to \<open>YYYY-MM-DD\<close>.
\<close>

definition specDateShape :: "jsstring \<Rightarrow> bool" where
  "specDateShape p \<longleftrightarrow>
     length p = 10 \<and> list_all isDigit (take 2 p) \<and> p ! 2 = 47 \<and>
     list_all isDigit (take 2 (drop 3 p)) \<and> p ! 5 = 47 \<and> list_all isDigit (drop 6 p)"

definition specRearrange :: "jsstring \<Rightarrow> jsstring" where
  "specRearrange p = drop 6 p @ [45] @ take 2 (drop 3 p) @ [45] @ take 2 p"

text \<open>An entry with the given \<open>lucroTotal\<close>, for examples.\<close>

definition entryOf :: "jsnum \<Rightarrow> entry" where
  "entryOf l =
     \<lparr>g_dataAposta = None, g_operador = [], g_evento = [], g_esporte = [],
      lucroTotal = l, stakeTotal = Fin 0\<rparr>"

text \<open>
  What the properties need of the Unicode functions: upper-casing and NFD normalization
  commute with trimming (they map white space to white space and nothing else to it),
  and leave the seven canonical names, which are upper-case ASCII, unchanged.
\<close>

definition canonicalNames :: "jsstring list" where
  "canonicalNames =
     map jstr [''DATA APOSTA'', ''LUCRO'', ''STAKE'', ''CASA'', ''ESPORTE'', ''DATA EVENTO'',
       ''EVENTO'']"

definition trimStable :: "(jsstring \<Rightarrow> jsstring) \<Rightarrow> bool" where
  "trimStable f \<longleftrightarrow> (\<forall>s. f (trim s) = trim (f s))"

definition unicodeOK :: "unicode \<Rightarrow> bool" where
  "unicodeOK U \<longleftrightarrow>
     trimStable (toUpperCase U) \<and> trimStable (normalizeNFD U) \<and>
     list_all (\<lambda>n. toUpperCase U n = n \<and> normalizeNFD U n = n) canonicalNames"

text \<open>Trimming on the right only.\<close>

definition rtrim :: "jsstring \<Rightarrow> jsstring" where
  "rtrim s = rev (dropWhile isWhiteSpace (rev s))"

text \<open>Some rule of the header canonicalizer applies to the normalized text.\<close>

definition matchesRule :: "jsstring \<Rightarrow> bool" where
  "matchesRule n \<longleftrightarrow> list_ex (\<lambda>rule. fst rule n) specHeaderRules"

text \<open>
  Two tabs of one spreadsheet: the header of the second is worded differently, its first
  cell normalizes to a text that contains \<open>DATA APOSTA\<close>.
\<close>

definition tabA :: "jsstring list list" where
  "tabA = [[jstr ''DATA APOSTA'', jstr ''LUCRO'', jstr ''STAKE''],
           [jstr ''01/01/2025'', jstr ''100,50'', jstr ''50,00'']]"

definition tabB :: "jsstring list list" where
  "tabB = [[jstr ''Data  aposta (hora)'', jstr ''Resultado'', jstr ''Valor''],
           [jstr ''02/01/2025'', jstr ''-20,00'', jstr ''10,00'']]"

text \<open>
  The loops that fill a dictionary all have one shape: the value under the key is created
  when the key is new, and then updated. \<open>groupFold\<close> is that loop; \<open>valueAt\<close> is the value
  it leaves under a key: the updates of the items of that key, in their order, applied to
  the value the first of them creates. \<open>firstOcc\<close> lists keys in the order of their first
  occurrence.
\<close>

definition upsert :: "jsstring \<Rightarrow> 'v \<Rightarrow> ('v \<Rightarrow> 'v) \<Rightarrow> 'v dict \<Rightarrow> 'v dict" where
  "upsert k i f obj = updateOwn k f (if hasOwn k obj then obj else obj @ [(k, i)])"

definition firstOcc :: "'a list \<Rightarrow> 'a list" where
  "firstOcc ks = rev (remdups (rev ks))"

definition groupFold ::
  "('x \<Rightarrow> jsstring) \<Rightarrow> ('x \<Rightarrow> 'v) \<Rightarrow> ('x \<Rightarrow> 'v \<Rightarrow> 'v) \<Rightarrow> 'x list \<Rightarrow> 'v dict"
where
  "groupFold key init step xs = foldl (\<lambda>obj x. upsert (key x) (init x) (step x) obj) [] xs"

definition valueAt ::
  "('x \<Rightarrow> jsstring) \<Rightarrow> ('x \<Rightarrow> 'v) \<Rightarrow> ('x \<Rightarrow> 'v \<Rightarrow> 'v) \<Rightarrow> 'x list \<Rightarrow> jsstring \<Rightarrow> 'v"
where
  "valueAt key init step xs k =
     foldl (\<lambda>v x. step x v) (init (hd (filter (\<lambda>x. key x = k) xs)))
       (filter (\<lambda>x. key x = k) xs)"

text \<open>A finite number, and the real number it denotes.\<close>

definition isFin :: "jsnum \<Rightarrow> bool" where
  "isFin a = (case a of Fin x \<Rightarrow> True | _ \<Rightarrow> False)"

definition realOf :: "jsnum \<Rightarrow> real" where
  "realOf a = (case a of Fin x \<Rightarrow> x | _ \<Rightarrow> 0)"

text \<open>The loop of a breakdown, over items with a key, a \<open>lucro\<close> and a \<open>stake\<close>.\<close>

definition emptyBucket :: "jsstring \<Rightarrow> bucket" where
  "emptyBucket k = \<lparr>bname = k, entradas = 0, b_lucro = Fin 0, stake_total = Fin 0\<rparr>"

definition bumpBucket :: "(real \<Rightarrow> jsnum) \<Rightarrow> jsnum \<Rightarrow> jsnum \<Rightarrow> bucket \<Rightarrow> bucket" where
  "bumpBucket rnd l s b =
     b\<lparr>entradas := entradas b + 1, b_lucro := jadd rnd (b_lucro b) l,
       stake_total := jadd rnd (stake_total b) s\<rparr>"

definition bucketFold ::
  "(real \<Rightarrow> jsnum) \<Rightarrow> ('x \<Rightarrow> jsstring) \<Rightarrow> ('x \<Rightarrow> jsnum) \<Rightarrow> ('x \<Rightarrow> jsnum) \<Rightarrow> 'x list \<Rightarrow> bucket dict"
where
  "bucketFold rnd key l s xs =
     foldl (\<lambda>obj x. addToBucket rnd (key x) (l x) (s x) obj) [] xs"

text \<open>A key that \<open>Object.prototype\<close> has not.\<close>

definition plainKey :: "jsstring \<Rightarrow> bool" where
  "plainKey k \<longleftrightarrow> k \<notin> set objectPrototypeKeys"

text \<open>
  The sum of a list of numbers, added from left to right from 0, and the comparison
  \<open>==\<close> of two numbers (NaN equals nothing).
\<close>

definition sumNums :: "(real \<Rightarrow> jsnum) \<Rightarrow> jsnum list \<Rightarrow> jsnum" where
  "sumNums rnd xs = foldl (jadd rnd) (Fin 0) xs"

definition jeq :: "jsnum \<Rightarrow> jsnum \<Rightarrow> bool" where
  "jeq a b \<longleftrightarrow> a \<noteq> NaN \<and> b \<noteq> NaN \<and> a = b"

text \<open>Records for examples. \<open>0.1\<close> and \<open>0.4\<close> are the doubles that \<open>"0,1"\<close> and \<open>"0,4"\<close> parse to.\<close>

definition betOf :: "jsstring \<Rightarrow> jsstring \<Rightarrow> jsnum \<Rightarrow> jsnum \<Rightarrow> betrecord" where
  "betOf ev cs s l =
     \<lparr>dataAposta = Some (jstr ''2025-01-01''), operador = jstr ''Ana'', casa = cs,
      esporte = jstr ''Futebol'', evento = ev, dataEvento = [], stake = s, lucro = l\<rparr>"

definition floatExample :: "betrecord list" where
  "floatExample =
     [betOf (jstr ''x'') (jstr ''A'') (Fin 0) (Fin (3602879701896397 / 36028797018963968)),
      betOf (jstr ''y'') (jstr ''B'') (Fin 0) (Fin (3602879701896397 / 36028797018963968)),
      betOf (jstr ''z'') (jstr ''A'') (Fin 0) (Fin (3602879701896397 / 9007199254740992))]"

definition exactExample :: "betrecord list" where
  "exactExample =
     [betOf (jstr ''x'') (jstr ''A'') (Fin 50) (Fin (201 / 2)),
      betOf (jstr ''y'') [] (Fin (21 / 2)) (Fin (- 81 / 4)),
      betOf (jstr ''x'') (jstr ''B'') (Fin 50) (Fin (- 50))]"

text \<open>
  The statistics of a list of records: the records grouped into entries, as both handlers
  do, and \<open>buildStatsFromData\<close> of the records and the entries.
\<close>

definition statsOfRecords :: "(real \<Rightarrow> jsnum) \<Rightarrow> unicode \<Rightarrow> betrecord list \<Rightarrow> stats" where
  "statsOfRecords rnd U data = buildStatsFromData rnd data (map snd (groupEntries rnd U data))"

text \<open>
  Records that have the same entry key have the same operador. The key is a text, the
  three parts joined by \<open>|\<close>: this holds when no operador contains \<open>|\<close>, and for the
  records of one sheet.
\<close>

definition sameKeySameOperador :: "unicode \<Rightarrow> betrecord list \<Rightarrow> bool" where
  "sameKeySameOperador U data \<longleftrightarrow>
     list_all (\<lambda>d. list_all (\<lambda>d'. groupKey U d = groupKey U d' \<longrightarrow> operador d = operador d') data)
       data"

text \<open>The entry a record creates, the update a record makes, and what the statistics read of
  an entry.\<close>

definition initEntry :: "betrecord \<Rightarrow> entry" where
  "initEntry d =
     \<lparr>g_dataAposta = dataAposta d, g_operador = operador d, g_evento = evento d,
      g_esporte = esporte d, lucroTotal = Fin 0, stakeTotal = Fin 0\<rparr>"

definition bumpEntry :: "(real \<Rightarrow> jsnum) \<Rightarrow> betrecord \<Rightarrow> entry \<Rightarrow> entry" where
  "bumpEntry rnd d g =
     g\<lparr>lucroTotal := jadd rnd (lucroTotal g) (lucro d),
       stakeTotal := jadd rnd (stakeTotal g) (stake d)\<rparr>"

definition entryProj :: "entry \<Rightarrow> jsstring \<times> jsnum \<times> jsnum" where
  "entryProj g = (g_operador g, lucroTotal g, stakeTotal g)"

text \<open>\<open>d.dataAposta || ""\<close>, and the value a day starts from.\<close>

definition dateKey :: "betrecord \<Rightarrow> jsstring" where
  "dateKey d = (case dataAposta d of None \<Rightarrow> [] | Some k \<Rightarrow> k)"

definition dayInit :: "jsstring \<Rightarrow> dayval" where
  "dayInit k = (if plainKey k then DayNum (Fin 0) else DayText)"

text \<open>Two records of different casas.\<close>

definition orderExample :: "betrecord list" where
  "orderExample =
     [betOf (jstr ''x'') (jstr ''A'') (Fin 50) (Fin 100),
      betOf (jstr ''y'') (jstr ''B'') (Fin 10) (Fin (- 20))]"




text \<open>
  A finite number that is a multiple of \<open>2 ^ - k\<close>; and data whose additions do not round:
  the values \<open>f x\<close> are multiples of \<open>2 ^ - k\<close> (with \<open>k \<le> 1074\<close>, every double being a
  multiple of \<open>2 ^ - 1074\<close>) and their magnitudes add up to less than \<open>2 ^ (53 - k)\<close>. Whole
  amounts below \<open>2 ^ 53\<close> in total are the case \<open>k = 0\<close>; amounts in halves or quarters are
  the cases \<open>k = 1\<close> and \<open>k = 2\<close>.
\<close>

definition dyadic :: "nat \<Rightarrow> jsnum \<Rightarrow> bool" where
  "dyadic k a = (case a of Fin x \<Rightarrow> x * 2 ^ k \<in> \<int> | _ \<Rightarrow> False)"

definition dyadicData :: "nat \<Rightarrow> ('x \<Rightarrow> jsnum) \<Rightarrow> 'x list \<Rightarrow> bool" where
  "dyadicData k f xs \<longleftrightarrow>
     k \<le> 1074 \<and> list_all (\<lambda>x. dyadic k (f x)) xs \<and>
     (\<Sum>x\<leftarrow>xs. \<bar>realOf (f x)\<bar>) * 2 ^ k < 2 ^ 53"

text \<open>The records of \<open>floatExample\<close> in another order: lucro 0.1, 0.4, 0.1.\<close>

definition floatExampleSwapped :: "betrecord list" where
  "floatExampleSwapped = [floatExample ! 0, floatExample ! 2, floatExample ! 1]"

text \<open>
  Two records of one date with the same entry key \<open>2025-01-01|x|y|z\<close> and different
  operadores, and two records whose casas are array indices.
\<close>

definition clashFirst :: betrecord where
  "clashFirst =
     \<lparr>dataAposta = Some (jstr ''2025-01-01''), operador = jstr ''z'', casa = jstr ''A'',
      esporte = jstr ''Futebol'', evento = jstr ''x|y'', dataEvento = [], stake = Fin 1,
      lucro = Fin 1\<rparr>"

definition clashSecond :: betrecord where
  "clashSecond =
     \<lparr>dataAposta = Some (jstr ''2025-01-01''), operador = jstr ''y|z'', casa = jstr ''A'',
      esporte = jstr ''Futebol'', evento = jstr ''x'', dataEvento = [], stake = Fin 1,
      lucro = Fin 1\<rparr>"

definition clashExample :: "betrecord list" where
  "clashExample = [clashFirst, clashSecond]"

definition indexExample :: "betrecord list" where
  "indexExample =
     [betOf (jstr ''x'') (jstr ''10'') (Fin 1) (Fin 1),
      betOf (jstr ''y'') (jstr ''9'') (Fin 1) (Fin 1)]"

section \<open>Rows without a date\<close>

lemma overviewRows_filter:
  "overviewRows rnd sh q (filter hasDate rows) = overviewRows rnd sh q rows"
proof (induction rows)
  case Nil
  show ?case by simp
next
  case (Cons r rows)
  have h: "hasDate r = (parseDateISO (cell r (jstr ''DATA APOSTA'')) \<noteq> None)"
    by (simp add: hasDate_def)
  show ?case
    by (cases "parseDateISO (cell r (jstr ''DATA APOSTA''))") (simp_all add: h Cons.IH)
qed

lemma overviewAllRows_filter:
  "overviewAllRows rnd U op q (filter hasDate rows) st = overviewAllRows rnd U op q rows st"
proof (induction rows arbitrary: st)
  case Nil
  show ?case by simp
next
  case (Cons r rows)
  obtain data gm where st: "st = (data, gm)" by (cases st)
  have h: "hasDate r = (parseDateISO (cell r (jstr ''DATA APOSTA'')) \<noteq> None)"
    by (simp add: hasDate_def)
  show ?case
    by (cases "parseDateISO (cell r (jstr ''DATA APOSTA''))")
       (simp_all add: st h Cons.IH Let_def)
qed

lemma overviewAllSheets_filter:
  "overviewAllSheets rnd U q (map (\<lambda>(sh, rows). (sh, filter hasDate rows)) sheets) st =
   overviewAllSheets rnd U q sheets st"
proof (induction sheets arbitrary: st)
  case Nil
  show ?case by simp
next
  case (Cons p sheets)
  obtain sh rows where p: "p = (sh, rows)" by (cases p)
  show ?case by (simp add: p Cons.IH overviewAllRows_filter)
qed

text \<open>
  C1. A row whose \<open>DATA APOSTA\<close> cell \<open>parseDateISO\<close> maps to \<open>null\<close> contributes to no
  statistic of the overview and overview-all handlers: the whole statistics object
  (overview totals, lucroPorDia, porOperador, porCasa, porEsporte) is the one computed
  from the rows that have a date, whatever the operador, from and to parameters are.
\<close>

theorem rows_without_date_dropped:
  "overviewStats rnd U sh q (filter hasDate rows) = overviewStats rnd U sh q rows \<and>
   overviewAllStats rnd U q (map (\<lambda>(sh, rows). (sh, filter hasDate rows)) sheets) =
     overviewAllStats rnd U q sheets"
  by (simp add: overviewStats_def overviewAllStats_def overviewRows_filter
      overviewAllSheets_filter)

section \<open>Failures of the handlers\<close>



section \<open>\<open>parseNumber\<close>\<close>

text \<open>
  C10. For every input (a number, NaN and the infinities included, a string, \<open>null\<close> or
  \<open>undefined\<close>) \<open>parseNumber\<close> returns a number that is not NaN: the number NaN and a text
  that is no number give 0.
\<close>

theorem parseNumber_never_NaN:
  "parseNumber rnd v \<noteq> NaN \<and>
   parseNumber rnd (JNum NaN) = Fin 0 \<and>
   parseNumber rnd (JStr (jstr ''abc'')) = Fin 0"
proof -
  have "parseNumber rnd v \<noteq> NaN"
    by (cases v) (simp_all add: Let_def)
  moreover have "parseNumber rnd (JStr (jstr ''abc'')) = Fin 0"
    by (simp add: jstr_def isWhiteSpace_def trim_def isDigit_def stripSpaces_def stripDots_def
        parseNonDecimal_def parseUnsignedDecimal_def strToNum_def Let_def)
  ultimately show ?thesis by simp
qed

section \<open>\<open>parseDateISO\<close>\<close>
lemmas str_eval = jstr_def isWhiteSpace_def trim_def isDigit_def beforeFirstSpace_def

lemma matchDate_shape:
  "matchDate p =
     (if specDateShape p then Some (take 2 p, take 2 (drop 3 p), drop 6 p) else None)"
  by (simp add: matchDate_def specDateShape_def split: list.splits)

lemma dateOfText_shape:
  "dateOfText s =
     (if specDateShape (beforeFirstSpace (trim s))
      then Some (specRearrange (beforeFirstSpace (trim s))) else None)"
  by (simp add: dateOfText_def matchDate_shape specRearrange_def)

text \<open>
  C3 as stated fails for a text with leading white space: the text before its first space
  is empty and has not the date shape, yet \<open>parseDateISO\<close> returns a date, because it
  trims the text first.
\<close>

theorem parseDateISO_counterexample:
  "\<not> specDateShape (beforeFirstSpace (jstr '' 03/11/2025'')) \<and>
   parseDateISO (JStr (jstr '' 03/11/2025'')) = Some (jstr ''2025-11-03'')"
  by (simp add: str_eval specDateShape_def dateOfText_def matchDate_def)

text \<open>
  C3, amended. \<open>parseDateISO\<close> returns \<open>YYYY-MM-DD\<close> when, in the input trimmed of
  surrounding white space, the text before the first space is exactly two digits, \<open>/\<close>,
  two digits, \<open>/\<close>, four digits (what follows the space is ignored), and \<open>null\<close>
  otherwise, also for an empty or absent input. No calendar check is made:
  \<open>32/13/2025\<close> gives \<open>2025-13-32\<close>.
\<close>

theorem parseDateISO_trimmed:
  "parseDateISO JUndefined = None \<and> parseDateISO JNull = None \<and>
   parseDateISO (JStr s) =
     (if specDateShape (beforeFirstSpace (trim s))
      then Some (specRearrange (beforeFirstSpace (trim s))) else None) \<and>
   parseDateISO (JStr (jstr ''03/11/2025 22:29:54'')) = Some (jstr ''2025-11-03'') \<and>
   parseDateISO (JStr (jstr ''32/13/2025'')) = Some (jstr ''2025-13-32'') \<and>
   parseDateISO (JStr (jstr ''bad'')) = None"
proof -
  have "specDateShape (beforeFirstSpace (trim [])) = False"
    by (simp add: specDateShape_def beforeFirstSpace_def trim_def)
  then have a: "parseDateISO (JStr s) =
     (if specDateShape (beforeFirstSpace (trim s))
      then Some (specRearrange (beforeFirstSpace (trim s))) else None)"
    by (cases "s = []") (simp_all add: dateOfText_shape)
  have b: "parseDateISO (JStr (jstr ''03/11/2025 22:29:54'')) = Some (jstr ''2025-11-03'')"
    by (simp add: str_eval dateOfText_def matchDate_def)
  have c: "parseDateISO (JStr (jstr ''32/13/2025'')) = Some (jstr ''2025-13-32'')"
    by (simp add: str_eval dateOfText_def matchDate_def)
  have d: "parseDateISO (JStr (jstr ''bad'')) = None"
    by (simp add: str_eval dateOfText_def matchDate_def)
  show ?thesis using a b c d by simp
qed

section \<open>Rounding to a double, evaluated\<close>

lemmas quantum_eval = quantum_def binExp_def binExpUp.simps binExpDown.simps pow2_def
lemmas half_even_eval = roundHalfEven_def Let_def

lemma round64I:
  "0 < x \<Longrightarrow> quantum x = q \<Longrightarrow> roundHalfEven (x / q) = m \<Longrightarrow> of_int m * q = r \<Longrightarrow>
   r < 2 ^ 1024 \<Longrightarrow> round64 x = Fin r"
  by (simp add: round64_def roundMag_def)

lemma round64_1080: "round64 1080 = Fin 1080"
  by (rule round64I [where q = "1 / 2 ^ 42" and m = 4749890231992320])
     (simp_all add: quantum_eval half_even_eval)

lemma round64_16: "round64 16 = Fin 16"
  by (rule round64I [where q = "1 / 2 ^ 48" and m = 4503599627370496])
     (simp_all add: quantum_eval half_even_eval)

lemma round64_third: "round64 (1 / 3) = Fin (6004799503160661 / 18014398509481984)"
  by (rule round64I [where q = "1 / 2 ^ 54" and m = 6004799503160661])
     (simp_all add: quantum_eval half_even_eval)

lemma round64_third_100:
  "round64 (150119987579016525 / 4503599627370496) = Fin (2345624805922133 / 70368744177664)"
  by (rule round64I [where q = "1 / 2 ^ 47" and m = 4691249611844266])
     (simp_all add: quantum_eval half_even_eval)

lemma round64_two_thirds: "round64 (2 / 3) = Fin (6004799503160661 / 9007199254740992)"
  by (rule round64I [where q = "1 / 2 ^ 53" and m = 6004799503160661])
     (simp_all add: quantum_eval half_even_eval)

lemma round64_two_thirds_100:
  "round64 (150119987579016525 / 2251799813685248) = Fin (2345624805922133 / 35184372088832)"
  by (rule round64I [where q = "1 / 2 ^ 46" and m = 4691249611844266])
     (simp_all add: quantum_eval half_even_eval)

lemma round64_percent_sum:
  "round64 (7036874417766399 / 70368744177664) = Fin (7036874417766399 / 70368744177664)"
  by (rule round64I [where q = "1 / 2 ^ 46" and m = 7036874417766399])
     (simp_all add: quantum_eval half_even_eval)

lemma round64_eps: "round64 (1 / 1000000) = Fin (4722366482869645 / 4722366482869645213696)"
  by (rule round64I [where q = "1 / 2 ^ 72" and m = 4722366482869645])
     (simp_all add: quantum_eval half_even_eval)

section \<open>Rounding to a double, in general\<close>

text \<open>
  Three facts about \<open>round64\<close>: the exponent it finds for a number below \<open>2 ^ (E + 1)\<close> is
  at most \<open>E\<close>; a multiple \<open>m / 2 ^ k\<close> of \<open>2 ^ - k\<close> with \<open>|m| < 2 ^ 53\<close> is a double,
  and is rounded to itself; and a number below \<open>2 ^ (E + 1)\<close> is rounded to a double at a
  distance of at most \<open>2 ^ (E - 53)\<close>.
\<close>

lemma pow2_powi: "pow2 e = 2 powi e"
  by (simp add: pow2_def power_int_def power_one_over inverse_eq_divide)

lemma binExpUp_le: "a < 2 ^ Suc n \<Longrightarrow> binExpUp a e \<le> e + int n"
proof (induction n arbitrary: a e)
  case 0
  then show ?case by (subst binExpUp.simps) simp
next
  case (Suc n)
  show ?case
  proof (cases "2 \<le> a")
    case True
    have "a / 2 < 2 ^ Suc n" using Suc.prems by simp
    then have "binExpUp (a / 2) (e + 1) \<le> e + 1 + int n" by (rule Suc.IH)
    then show ?thesis using True by (subst binExpUp.simps) simp
  next
    case False
    then show ?thesis by (subst binExpUp.simps) simp
  qed
qed

lemma binExpDown_le: "binExpDown a e \<le> e"
proof (induction a e rule: binExpDown.induct)
  case (1 a e)
  show ?case
  proof (cases "a < 1 \<and> - 1022 < e")
    case True
    then have "binExpDown (a * 2) (e - 1) \<le> e - 1" by (rule 1)
    then show ?thesis using True by (subst binExpDown.simps) simp
  next
    case False
    then show ?thesis by (subst binExpDown.simps) auto
  qed
qed

lemma binExpDown_small:
  "a < 1 / 2 ^ n \<Longrightarrow> - 1022 \<le> e - int n - 1 \<Longrightarrow> binExpDown a e \<le> e - int n - 1"
proof (induction n arbitrary: a e)
  case 0
  then have c: "a < 1 \<and> - 1022 < e" by simp
  have "binExpDown (a * 2) (e - 1) \<le> e - 1" by (rule binExpDown_le)
  then show ?case using c by (subst binExpDown.simps) simp
next
  case (Suc n)
  have "(1::real) \<le> 2 ^ Suc n" by (rule one_le_power) simp
  then have "1 / 2 ^ Suc n \<le> (1::real)" by (simp add: divide_le_eq_1 del: power_Suc)
  then have c: "a < 1 \<and> - 1022 < e" using Suc.prems by linarith
  have "a * 2 < 1 / 2 ^ n" using Suc.prems(1) by (simp add: field_simps)
  moreover have "- 1022 \<le> (e - 1) - int n - 1" using Suc.prems(2) by simp
  ultimately have "binExpDown (a * 2) (e - 1) \<le> (e - 1) - int n - 1" by (rule Suc.IH)
  then show ?case using c by (subst binExpDown.simps) simp
qed

lemma binExp_le:
  assumes "0 < x" "x < 2 powi (E + 1)" "- 1022 \<le> E"
  shows "binExp x \<le> E"
proof (cases "1 \<le> x")
  case True
  have "(1::real) < 2 powi (E + 1)" using True assms(2) by linarith
  have E: "0 \<le> E"
  proof (rule ccontr)
    assume "\<not> 0 \<le> E"
    then have "E + 1 \<le> 0" by simp
    then have "(2::real) powi (E + 1) \<le> 2 powi 0" by (intro power_int_increasing) simp_all
    then show False using \<open>1 < 2 powi (E + 1)\<close> by simp
  qed
  then have "2 powi (E + 1) = (2::real) ^ Suc (nat E)"
    by (simp add: power_int_def nat_add_distrib)
  then have "x < 2 ^ Suc (nat E)" using assms(2) by simp
  then have "binExpUp x 0 \<le> 0 + int (nat E)" by (rule binExpUp_le)
  then show ?thesis using True E by (simp add: binExp_def)
next
  case False
  show ?thesis
  proof (cases "0 \<le> E")
    case True
    have "binExpDown x 0 \<le> 0" by (rule binExpDown_le)
    then show ?thesis using False True by (simp add: binExp_def)
  next
    case neg: False
    define n where "n = nat (- E - 1)"
    have E: "E = - int n - 1" using neg by (simp add: n_def)
    have "2 powi (E + 1) = 1 / (2::real) ^ n"
      by (simp add: E power_int_minus inverse_eq_divide)
    then have "x < 1 / 2 ^ n" using assms(2) by simp
    moreover have "- 1022 \<le> 0 - int n - 1" using assms(3) E by simp
    ultimately have "binExpDown x 0 \<le> 0 - int n - 1" by (rule binExpDown_small)
    then show ?thesis using False E by (simp add: binExp_def)
  qed
qed

lemma roundHalfEven_of_int: "roundHalfEven (of_int n) = n"
  by (simp add: roundHalfEven_def)

lemma roundHalfEven_err: "\<bar>of_int (roundHalfEven y) - y\<bar> \<le> 1 / 2"
proof -
  have "of_int \<lfloor>y\<rfloor> \<le> y" "y < of_int \<lfloor>y\<rfloor> + 1" by linarith+
  then show ?thesis by (auto simp: roundHalfEven_def Let_def)
qed

lemma roundMag_dyadic:
  fixes m :: int
  assumes "0 < m" "m < 2 ^ 53" "k \<le> 1074"
  shows "roundMag (of_int m / 2 ^ k) = of_int m / 2 ^ k"
proof -
  let ?x = "of_int m / 2 ^ k :: real"
  have pos: "0 < ?x" using assms(1) by simp
  have "(of_int m :: real) < 2 ^ 53" using assms(2) by (metis of_int_less_numeral_power_cancel_iff)
  then have "?x < 2 ^ 53 / 2 ^ k" by (simp add: divide_strict_right_mono)
  also have "(2::real) ^ 53 / 2 ^ k = 2 powi (52 - int k + 1)"
    by (simp add: power_int_diff)
  finally have lt: "?x < 2 powi (52 - int k + 1)" .
  have b: "binExp ?x \<le> 52 - int k"
    using assms(3) by (intro binExp_le [OF pos lt]) simp
  define d where "d = nat (52 - int k - binExp ?x)"
  have e: "binExp ?x - 52 = - int (k + d)" using b by (simp add: d_def)
  have "(2::real) powi (- int (k + d)) = 1 / 2 ^ (k + d)"
    by (simp only: power_int_minus power_int_of_nat inverse_eq_divide)
  then have q: "quantum ?x = 1 / (2 ^ k * 2 ^ d)"
    unfolding quantum_def pow2_powi e by (simp only: power_add)
  have "?x / quantum ?x = of_int (m * 2 ^ d)"
    by (simp add: q)
  then have "roundHalfEven (?x / quantum ?x) = m * 2 ^ d"
    by (simp only: roundHalfEven_of_int)
  then show ?thesis
    by (simp add: roundMag_def q)
qed

lemma round64_dyadic:
  fixes m :: int
  assumes "\<bar>m\<bar> < 2 ^ 53" "k \<le> 1074"
  shows "round64 (of_int m / 2 ^ k) = Fin (of_int m / 2 ^ k)"
proof -
  have small: "of_int n / 2 ^ k < (2::real) ^ 1024" if "0 < n" "n < 2 ^ 53" for n :: int
  proof -
    have "(of_int n :: real) < 2 ^ 53" using that(2) by (metis of_int_less_numeral_power_cancel_iff)
    moreover have "(1::real) \<le> 2 ^ k" by (rule one_le_power) simp
    then have "of_int n / 2 ^ k \<le> (of_int n :: real) / 1"
      using that(1) by (intro divide_left_mono) simp_all
    moreover have "(2::real) ^ 53 < 2 ^ 1024" by simp
    ultimately show ?thesis by simp
  qed
  consider "m = 0" | "0 < m" | "m < 0" by linarith
  then show ?thesis
  proof cases
    case 1
    then show ?thesis by (simp add: round64_def)
  next
    case 2
    then have r: "roundMag (of_int m / 2 ^ k) = of_int m / 2 ^ k"
      using assms by (intro roundMag_dyadic) simp_all
    have "m < 2 ^ 53" using assms(1) by simp
    then have s: "of_int m / 2 ^ k < (2::real) ^ 1024" using 2 by (intro small) simp_all
    have pos: "0 < (of_int m / 2 ^ k :: real)" using 2 by simp
    have ab: "\<bar>of_int m / 2 ^ k :: real\<bar> = of_int m / 2 ^ k" using 2 by simp
    show ?thesis
      unfolding round64_def ab r using pos s by simp
  next
    case 3
    then have r: "roundMag (of_int (- m) / 2 ^ k) = of_int (- m) / 2 ^ k"
      using assms by (intro roundMag_dyadic) simp_all
    have "- m < 2 ^ 53" using assms(1) by simp
    then have s: "of_int (- m) / 2 ^ k < (2::real) ^ 1024" using 3 by (intro small) simp_all
    have neg: "of_int m / 2 ^ k < (0::real)" using 3 by (simp add: divide_neg_pos)
    have ab: "\<bar>of_int m / 2 ^ k :: real\<bar> = of_int (- m) / 2 ^ k" using 3 by simp
    show ?thesis
      unfolding round64_def ab r using neg s by simp
  qed
qed

lemma roundHalfEven_nonneg: "0 \<le> y \<Longrightarrow> 0 \<le> roundHalfEven y"
proof -
  assume "0 \<le> y"
  then have "0 \<le> \<lfloor>y\<rfloor>" by simp
  then show ?thesis by (auto simp: roundHalfEven_def Let_def)
qed

lemma round64_near:
  assumes "0 \<le> x" "x < 2 powi (E + 1)" "- 1022 \<le> E" "E \<le> 1022"
  shows "\<exists>r. round64 x = Fin r \<and> 0 \<le> r \<and> \<bar>r - x\<bar> \<le> 2 powi (E - 53)"
proof (cases "x = 0")
  case True
  then show ?thesis by (simp add: round64_def)
next
  case False
  then have pos: "0 < x" using assms(1) by simp
  define q where "q = quantum x"
  define m where "m = roundHalfEven (x / q)"
  have b: "binExp x \<le> E" by (rule binExp_le [OF pos assms(2,3)])
  have q: "q = 2 powi (binExp x - 52)" by (simp add: q_def quantum_def pow2_powi)
  have qpos: "0 < q" by (simp add: q)
  have qle: "q \<le> 2 powi (E - 52)"
    unfolding q using b by (intro power_int_increasing) simp_all
  have half: "2 powi (E - 52) / 2 = (2::real) powi (E - 53)"
  proof -
    have "(2::real) powi (E - 52) = 2 powi (E - 53 + 1)" by simp
    also have "\<dots> = 2 powi (E - 53) * 2" by (subst power_int_add) simp_all
    finally show ?thesis by simp
  qed
  have "\<bar>of_int m - x / q\<bar> \<le> 1 / 2" unfolding m_def by (rule roundHalfEven_err)
  then have "\<bar>of_int m - x / q\<bar> * q \<le> 1 / 2 * q"
    using qpos by (intro mult_right_mono) simp_all
  moreover have "\<bar>of_int m - x / q\<bar> * q = \<bar>of_int m * q - x\<bar>"
  proof -
    have eq: "of_int m * q - x = (of_int m - x / q) * q"
      using qpos by (simp add: left_diff_distrib)
    show ?thesis unfolding eq abs_mult using qpos by simp
  qed
  ultimately have err: "\<bar>of_int m * q - x\<bar> \<le> 2 powi (E - 53)"
    using qle half by linarith
  have "0 \<le> x / q" using pos qpos by simp
  then have "0 \<le> m" unfolding m_def by (rule roundHalfEven_nonneg)
  then have nonneg: "0 \<le> of_int m * q" using qpos by simp
  have "(2::real) powi (E - 53) \<le> 2 powi (E + 1)" by (intro power_int_increasing) simp_all
  then have "of_int m * q < 2 powi (E + 1) + 2 powi (E + 1)" using err assms(2) by linarith
  also have "2 powi (E + 1) + 2 powi (E + 1) = (2::real) powi (E + 2)"
  proof -
    have "(2::real) powi (E + 2) = 2 powi (E + 1 + 1)" by (simp add: add.assoc)
    also have "\<dots> = 2 powi (E + 1) * 2" by (subst power_int_add) simp_all
    finally show ?thesis by simp
  qed
  also have "(2::real) powi (E + 2) \<le> 2 powi 1024"
    using assms(4) by (intro power_int_increasing) simp_all
  finally have "of_int m * q < (2::real) ^ 1024" by simp
  then have "round64 x = Fin (of_int m * q)"
    using pos by (simp add: round64_def roundMag_def q_def m_def)
  then show ?thesis using nonneg err by blast
qed


section \<open>\<open>parseNumber\<close>, continued\<close>

lemmas num_eval = stripSpaces_def stripDots_def digitsVal_def isHexDigit_def isOctalDigit_def
  isBinaryDigit_def parseNonDecimal_def decimalDigits_def parseExponent_def pow10_def
  parseUnsignedDecimal_def strToNum_def Let_def

text \<open>
  C2 as stated fails: \<open>0x10\<close> is no base-10 numeral, so the claim gives 0 for it, and
  \<open>parseNumber\<close> returns 16, because \<open>Number\<close> also reads hexadecimal, octal and binary
  integer literals.
\<close>

theorem parseNumber_hex_counterexample:
  "parseUnsignedDecimal (jstr ''0x10'') = None \<and>
   parseNumber round64 (JStr (jstr ''0x10'')) = Fin 16 \<and> Fin 16 \<noteq> Fin 0"
  by (simp add: str_eval num_eval round64_16)

lemma nbsp_isWhiteSpace: "(isWhiteSpace c \<or> c = 160) = isWhiteSpace c"
  by (auto simp: isWhiteSpace_def)

lemma stripSpaces_filter: "stripSpaces s = filter (\<lambda>c. \<not> isWhiteSpace c) s"
  by (simp only: stripSpaces_def nbsp_isWhiteSpace)

text \<open>
  C2, amended. \<open>parseNumber\<close> returns its argument when it is a number that is not NaN,
  and 0 when it is NaN, \<open>null\<close> or absent. For a text it removes every \<open>R$\<close> (in either
  case), all white space (the non-breaking space included) and every \<open>.\<close>, replaces the
  first \<open>,\<close> by \<open>.\<close>, converts the rest with \<open>Number\<close> (a decimal literal with optional
  sign, fraction and exponent, \<open>Infinity\<close>, a \<open>0x\<close>, \<open>0o\<close> or \<open>0b\<close> integer literal; the
  empty text is 0) and returns 0 when that gives NaN. In particular
  \<open>parseNumber("R$ 1.080,00")\<close> is 1080, \<open>parseNumber("")\<close> is 0 and \<open>parseNumber(42)\<close> is 42.
\<close>

theorem parseNumber_spec:
  "parseNumber rnd (JNum n) = (if n = NaN then Fin 0 else n) \<and>
   parseNumber rnd JNull = Fin 0 \<and>
   parseNumber rnd JUndefined = Fin 0 \<and>
   parseNumber rnd (JStr s) =
     (let n = strToNum rnd
                (replaceFirstComma
                  (filter (\<lambda>c. c \<noteq> 46) (filter (\<lambda>c. \<not> isWhiteSpace c) (stripRS s))))
      in if n = NaN then Fin 0 else n) \<and>
   parseNumber round64 (JStr (jstr ''R$ 1.080,00'')) = Fin 1080 \<and>
   parseNumber round64 (JStr []) = Fin 0 \<and>
   parseNumber round64 (JNum (Fin 42)) = Fin 42"
proof -
  have a: "parseNumber rnd (JStr s) =
     (let n = strToNum rnd
                (replaceFirstComma
                  (filter (\<lambda>c. c \<noteq> 46) (filter (\<lambda>c. \<not> isWhiteSpace c) (stripRS s))))
      in if n = NaN then Fin 0 else n)"
    by (simp add: stripSpaces_filter stripDots_def)
  have b: "parseNumber round64 (JStr (jstr ''R$ 1.080,00'')) = Fin 1080"
    by (simp add: str_eval num_eval round64_1080)
  have c: "parseNumber round64 (JStr []) = Fin 0"
    by (simp add: str_eval num_eval)
  show ?thesis using a b c by simp
qed


section \<open>Green and red percentages\<close>

lemma percent_1_3: "percentOf round64 (Fin 1) (Fin 3) = Fin (2345624805922133 / 70368744177664)"
  by (simp add: percentOf_def round64_third round64_third_100)

lemma percent_2_3: "percentOf round64 (Fin 2) (Fin 3) = Fin (2345624805922133 / 35184372088832)"
  by (simp add: percentOf_def round64_two_thirds round64_two_thirds_100)

lemma greens_ex: "greens round64 [entryOf (Fin 1), entryOf (Fin (- 1)), entryOf (Fin (- 1))] = 1"
  by (simp add: greens_def isGreen_def EPS_def round64_eps entryOf_def)

lemma reds_ex: "reds round64 [entryOf (Fin 1), entryOf (Fin (- 1)), entryOf (Fin (- 1))] = 2"
  by (simp add: reds_def isRed_def EPS_def round64_eps entryOf_def)

text \<open>
  C7 as stated fails in the double arithmetic of the program: with one green and two red
  entries \<open>greenPercent + redPercent\<close> is 99.99999999999999, not 100.
\<close>

theorem percent_sum_counterexample:
  "greens round64 [entryOf (Fin 1), entryOf (Fin (- 1)), entryOf (Fin (- 1))] = 1 \<and>
   reds round64 [entryOf (Fin 1), entryOf (Fin (- 1)), entryOf (Fin (- 1))] = 2 \<and>
   jadd round64
     (greenPercent (buildOverview round64 []
        [entryOf (Fin 1), entryOf (Fin (- 1)), entryOf (Fin (- 1))]))
     (redPercent (buildOverview round64 []
        [entryOf (Fin 1), entryOf (Fin (- 1)), entryOf (Fin (- 1))]))
   = Fin (7036874417766399 / 70368744177664) \<and>
   Fin (7036874417766399 / 70368744177664) \<noteq> Fin 100"
  by (simp add: buildOverview_def totalResolvidas_def greens_ex reds_ex percent_1_3 percent_2_3
      round64_percent_sum)

lemma percent_parts:
  fixes g r :: nat
  assumes "0 < g + r"
  shows "real g / real (g + r) * 100 + real r / real (g + r) * 100 = 100"
proof -
  have "0 < real (g + r)" using assms by (simp only: of_nat_0_less_iff)
  then have nz: "real (g + r) \<noteq> 0" by linarith
  have "real g / real (g + r) * 100 + real r / real (g + r) * 100 =
        (real g / real (g + r) + real r / real (g + r)) * 100"
    by (simp only: distrib_right)
  also have "real g / real (g + r) + real r / real (g + r) = (real g + real r) / real (g + r)"
    by (simp only: add_divide_distrib)
  also have "(real g + real r) / real (g + r) = real (g + r) / real (g + r)"
    by (simp only: of_nat_add)
  also have "real (g + r) / real (g + r) = 1"
    using nz by (rule divide_self)
  finally show ?thesis by simp
qed

lemma percentOf_near:
  fixes a t :: nat
  assumes "a \<le> t" "0 < t"
  shows "\<exists>p. percentOf round64 (Fin (real a)) (Fin (real t)) = Fin p \<and> 0 \<le> p \<and>
             \<bar>p - 100 * real a / real t\<bar> \<le> 41 / 2 ^ 51"
proof -
  have x: "0 \<le> real a / real t" "real a / real t < 2 powi (0 + 1)"
    using assms by (simp_all add: divide_less_eq)
  obtain c where c: "round64 (real a / real t) = Fin c" "0 \<le> c"
    "\<bar>c - real a / real t\<bar> \<le> 2 powi (0 - 53)"
    using round64_near [OF x] by auto
  have c1: "\<bar>c - real a / real t\<bar> \<le> 1 / 2 ^ 53"
    using c(3) by (simp add: power_int_minus inverse_eq_divide)
  have le1: "real a / real t \<le> 1" using assms by (simp add: divide_le_eq_1)
  have "c \<le> real a / real t + 1 / 2 ^ 53" using c1 by linarith
  then have "c \<le> 1 + 1 / 2 ^ 53" using le1 by linarith
  then have "c * 100 < 128" by simp
  then have y: "0 \<le> c * 100" "c * 100 < 2 powi (6 + 1)"
    using c(2) by simp_all
  obtain p where p: "round64 (c * 100) = Fin p" "0 \<le> p" "\<bar>p - c * 100\<bar> \<le> 2 powi (6 - 53)"
    using round64_near [OF y] by auto
  have p1: "\<bar>p - c * 100\<bar> \<le> 1 / 2 ^ 47"
    using p(3) by (simp add: power_int_minus inverse_eq_divide)
  have "percentOf round64 (Fin (real a)) (Fin (real t)) = Fin p"
    using assms(2) by (simp add: percentOf_def c(1) p(1))
  moreover have "\<bar>p - 100 * real a / real t\<bar> \<le> 41 / 2 ^ 51"
  proof -
    have "\<bar>c * 100 - 100 * real a / real t\<bar> = \<bar>c - real a / real t\<bar> * 100"
      by (simp add: abs_if)
    then have "\<bar>c * 100 - 100 * real a / real t\<bar> \<le> 100 / 2 ^ 53" using c1 by simp
    then have "\<bar>p - 100 * real a / real t\<bar> \<le> 1 / 2 ^ 47 + 100 / 2 ^ 53"
      using p1 by linarith
    then show ?thesis by simp
  qed
  ultimately show ?thesis using p(2) by blast
qed

lemma percent_sum_near:
  "(0 < totalResolvidas round64 grupos \<longrightarrow>
      isFin (jadd round64 (greenPercent (buildOverview round64 data grupos))
                          (redPercent (buildOverview round64 data grupos))) \<and>
      \<bar>realOf (jadd round64 (greenPercent (buildOverview round64 data grupos))
                           (redPercent (buildOverview round64 data grupos))) - 100\<bar>
        \<le> 5 / 10 ^ 14) \<and>
   (totalResolvidas rnd grupos = 0 \<longrightarrow>
      greenPercent (buildOverview rnd data grupos) = Fin 0 \<and>
      redPercent (buildOverview rnd data grupos) = Fin 0)"
proof (intro conjI impI)
  assume pos: "0 < totalResolvidas round64 grupos"
  define g where "g = greens round64 grupos"
  define r where "r = reds round64 grupos"
  have t: "totalResolvidas round64 grupos = g + r" by (simp add: totalResolvidas_def g_def r_def)
  have gr: "0 < g + r" using pos t by simp
  obtain G where G: "percentOf round64 (Fin (real g)) (Fin (real (g + r))) = Fin G" "0 \<le> G"
    "\<bar>G - 100 * real g / real (g + r)\<bar> \<le> 41 / 2 ^ 51"
    using percentOf_near [of g "g + r"] gr by auto
  obtain R where R: "percentOf round64 (Fin (real r)) (Fin (real (g + r))) = Fin R" "0 \<le> R"
    "\<bar>R - 100 * real r / real (g + r)\<bar> \<le> 41 / 2 ^ 51"
    using percentOf_near [of r "g + r"] gr by auto
  have "100 * real g / real (g + r) + 100 * real r / real (g + r) = 100"
    using percent_parts [OF gr] by (simp add: mult.commute)
  then have sum: "\<bar>G + R - 100\<bar> \<le> 82 / 2 ^ 51" using G(3) R(3) by linarith
  moreover have "(82::real) / 2 ^ 51 \<le> 1" by simp
  ultimately have "G + R < 128" by linarith
  then have x: "0 \<le> G + R" "G + R < 2 powi (6 + 1)" using G(2) R(2) by simp_all
  obtain S where S: "round64 (G + R) = Fin S" "\<bar>S - (G + R)\<bar> \<le> 2 powi (6 - 53)"
    using round64_near [OF x] by auto
  have "\<bar>S - (G + R)\<bar> \<le> 1 / 2 ^ 47"
    using S(2) by (simp add: power_int_minus inverse_eq_divide)
  then have "\<bar>S - 100\<bar> \<le> 82 / 2 ^ 51 + 1 / 2 ^ 47" using sum by linarith
  moreover have "(82::real) / 2 ^ 51 + 1 / 2 ^ 47 \<le> 5 / 10 ^ 14" by simp
  ultimately have near: "\<bar>S - 100\<bar> \<le> 5 / 10 ^ 14" by linarith
  have add: "jadd round64 (greenPercent (buildOverview round64 data grupos))
                          (redPercent (buildOverview round64 data grupos)) = Fin S"
    by (simp add: buildOverview_def t g_def [symmetric] r_def [symmetric]
        G(1) [unfolded of_nat_add] R(1) [unfolded of_nat_add] S(1))
  show "isFin (jadd round64 (greenPercent (buildOverview round64 data grupos))
                          (redPercent (buildOverview round64 data grupos)))"
    by (simp add: add isFin_def)
  show "\<bar>realOf (jadd round64 (greenPercent (buildOverview round64 data grupos))
                           (redPercent (buildOverview round64 data grupos))) - 100\<bar>
        \<le> 5 / 10 ^ 14"
    using near by (simp add: add realOf_def)
next
  assume "totalResolvidas rnd grupos = 0"
  then show "greenPercent (buildOverview rnd data grupos) = Fin 0"
    by (simp add: buildOverview_def percentOf_def)
next
  assume "totalResolvidas rnd grupos = 0"
  then show "redPercent (buildOverview rnd data grupos) = Fin 0"
    by (simp add: buildOverview_def percentOf_def)
qed

text \<open>
  C7, amended. With green meaning \<open>lucroTotal > 1e-6\<close> and red meaning
  \<open>lucroTotal < -1e-6\<close>: whenever at least one entry is green or red,
  \<open>greenPercent + redPercent\<close>, computed in doubles as the program does, is a finite number
  within \<open>5e-14\<close> of 100 (each percentage is two roundings away from its exact value, and
  the sum one more); and both are 0 when no entry is green or red. An entry of lucroTotal
  \<open>2e-6\<close> is green and one of \<open>-2e-6\<close> is red; entries of lucroTotal \<open>5e-7\<close>, 0 and
  \<open>-5e-7\<close> are neither.
\<close>

theorem percent_sum_rounded:
  "(0 < totalResolvidas round64 grupos \<longrightarrow>
      isFin (jadd round64 (greenPercent (buildOverview round64 data grupos))
                          (redPercent (buildOverview round64 data grupos))) \<and>
      \<bar>realOf (jadd round64 (greenPercent (buildOverview round64 data grupos))
                           (redPercent (buildOverview round64 data grupos))) - 100\<bar>
        \<le> 5 / 10 ^ 14) \<and>
   (totalResolvidas rnd grupos = 0 \<longrightarrow>
      greenPercent (buildOverview rnd data grupos) = Fin 0 \<and>
      redPercent (buildOverview rnd data grupos) = Fin 0) \<and>
   isGreen round64 (entryOf (Fin (1 / 500000))) \<and>
   isRed round64 (entryOf (Fin (- 1 / 500000))) \<and>
   \<not> isGreen round64 (entryOf (Fin (1 / 2000000))) \<and>
   \<not> isRed round64 (entryOf (Fin (1 / 2000000))) \<and>
   \<not> isGreen round64 (entryOf (Fin 0)) \<and>
   \<not> isRed round64 (entryOf (Fin 0)) \<and>
   \<not> isGreen round64 (entryOf (Fin (- 1 / 2000000))) \<and>
   \<not> isRed round64 (entryOf (Fin (- 1 / 2000000)))"
proof -
  have "isGreen round64 (entryOf (Fin (1 / 500000)))"
    "isRed round64 (entryOf (Fin (- 1 / 500000)))"
    "\<not> isGreen round64 (entryOf (Fin (1 / 2000000)))"
    "\<not> isRed round64 (entryOf (Fin (1 / 2000000)))"
    "\<not> isGreen round64 (entryOf (Fin 0))"
    "\<not> isRed round64 (entryOf (Fin 0))"
    "\<not> isGreen round64 (entryOf (Fin (- 1 / 2000000)))"
    "\<not> isRed round64 (entryOf (Fin (- 1 / 2000000)))"
    by (simp_all add: isGreen_def isRed_def EPS_def round64_eps entryOf_def)
  then show ?thesis using percent_sum_near [of grupos data rnd] by (simp only: simp_thms)
qed

theorem percent_sum_rounded_witness:
  "0 < totalResolvidas round64 [entryOf (Fin 1), entryOf (Fin (- 1)), entryOf (Fin (- 1))] \<and>
   isFin (jadd round64
     (greenPercent (buildOverview round64 []
        [entryOf (Fin 1), entryOf (Fin (- 1)), entryOf (Fin (- 1))]))
     (redPercent (buildOverview round64 []
        [entryOf (Fin 1), entryOf (Fin (- 1)), entryOf (Fin (- 1))]))) \<and>
   \<bar>realOf (jadd round64
     (greenPercent (buildOverview round64 []
        [entryOf (Fin 1), entryOf (Fin (- 1)), entryOf (Fin (- 1))]))
     (redPercent (buildOverview round64 []
        [entryOf (Fin 1), entryOf (Fin (- 1)), entryOf (Fin (- 1))]))) - 100\<bar> \<le> 5 / 10 ^ 14 \<and>
   totalResolvidas round64 [entryOf (Fin 0)] = 0 \<and>
   greenPercent (buildOverview round64 [] [entryOf (Fin 0)]) = Fin 0 \<and>
   redPercent (buildOverview round64 [] [entryOf (Fin 0)]) = Fin 0"
proof -
  have a: "0 < totalResolvidas round64 [entryOf (Fin 1), entryOf (Fin (- 1)), entryOf (Fin (- 1))]"
    by (simp add: totalResolvidas_def greens_ex reds_ex)
  have b: "totalResolvidas round64 [entryOf (Fin 0)] = 0"
    by (simp add: totalResolvidas_def greens_def reds_def isGreen_def isRed_def EPS_def
        round64_eps entryOf_def)
  show ?thesis
    using a b
      percent_sum_rounded [where grupos = "[entryOf (Fin 1), entryOf (Fin (- 1)), entryOf (Fin (- 1))]"
        and data = "[]" and rnd = round64]
      percent_sum_rounded [where grupos = "[entryOf (Fin 0)]" and data = "[]" and rnd = round64]
    by simp
qed


section \<open>White space\<close>

lemma trim_rtrim: "trim s = rtrim (dropWhile isWhiteSpace s)"
  by (simp add: trim_def rtrim_def)

lemma rtrim_Nil [simp]: "rtrim [] = []"
  by (simp add: rtrim_def)

lemma rtrim_Cons:
  "rtrim (c # y) = (if isWhiteSpace c \<and> rtrim y = [] then [] else c # rtrim y)"
  by (auto simp: rtrim_def dropWhile_append)

lemma rtrim_eq_Nil: "rtrim y = [] \<longleftrightarrow> list_all isWhiteSpace y"
  by (induction y) (auto simp: rtrim_Cons)

lemma dropWhile_allws: "list_all isWhiteSpace xs \<Longrightarrow> dropWhile isWhiteSpace xs = []"
  by (simp add: dropWhile_eq_Nil_conv list_all_iff)

lemma dropWhile_allws_set: "\<forall>x\<in>set xs. isWhiteSpace x \<Longrightarrow> dropWhile isWhiteSpace xs = []"
  by (simp add: dropWhile_eq_Nil_conv)

lemma collapse_all_ws:
  "list_all isWhiteSpace b \<Longrightarrow> collapseSpaces b = (if b = [] then [] else [32])"
  by (cases b) (simp_all add: dropWhile_allws)

lemma ws32: "isWhiteSpace 32"
  by (simp add: isWhiteSpace_def)

lemma rtrim_collapse_append:
  "list_all isWhiteSpace b \<Longrightarrow> rtrim (collapseSpaces (x @ b)) = rtrim (collapseSpaces x)"
proof (induction x rule: collapseSpaces.induct)
  case 1
  then show ?case by (simp add: collapse_all_ws rtrim_Cons ws32)
next
  case (2 c cs)
  show ?case
  proof (cases "isWhiteSpace c")
    case True
    show ?thesis
    proof (cases "list_all isWhiteSpace cs")
      case allws: True
      then show ?thesis
        using True 2(3) by (simp add: list_all_iff dropWhile_allws_set)
    next
      case False
      then have "dropWhile isWhiteSpace (cs @ b) = dropWhile isWhiteSpace cs @ b"
        by (auto simp: dropWhile_append list_all_iff)
      then show ?thesis using True 2(1) [OF True 2(3)] by (simp add: rtrim_Cons)
    qed
  next
    case False
    then show ?thesis using 2(2) [OF False 2(3)] by (simp add: rtrim_Cons)
  qed
qed

lemma dropWhile_collapse:
  "dropWhile isWhiteSpace (collapseSpaces x) = collapseSpaces (dropWhile isWhiteSpace x)"
proof (cases x)
  case Nil
  then show ?thesis by simp
next
  case (Cons c cs)
  show ?thesis
  proof (cases "isWhiteSpace c")
    case True
    have "\<And>y. dropWhile isWhiteSpace (collapseSpaces y) = collapseSpaces y \<or> True" by simp
    have nows: "\<And>y. y = dropWhile isWhiteSpace cs \<Longrightarrow>
       dropWhile isWhiteSpace (collapseSpaces y) = collapseSpaces y"
    proof -
      fix y assume y: "y = dropWhile isWhiteSpace cs"
      show "dropWhile isWhiteSpace (collapseSpaces y) = collapseSpaces y"
      proof (cases y)
        case Nil then show ?thesis by simp
      next
        case (Cons d ds)
        then have "\<not> isWhiteSpace d" using y
          by (metis hd_dropWhile list.sel(1) list.distinct(1))
        then show ?thesis using Cons by simp
      qed
    qed
    show ?thesis using True Cons nows by (simp add: ws32)
  next
    case False
    then show ?thesis using Cons by simp
  qed
qed

lemma trim_collapse_pad:
  assumes "list_all isWhiteSpace a" "list_all isWhiteSpace b"
  shows "trim (collapseSpaces (a @ x @ b)) = trim (collapseSpaces x)"
proof -
  have "trim (collapseSpaces (a @ x @ b)) =
        rtrim (collapseSpaces (dropWhile isWhiteSpace (a @ x @ b)))"
    by (simp add: trim_rtrim dropWhile_collapse)
  also have "dropWhile isWhiteSpace (a @ x @ b) = dropWhile isWhiteSpace (x @ b)"
    using assms(1) by (simp add: dropWhile_append list_all_iff)
  also have "rtrim (collapseSpaces (dropWhile isWhiteSpace (x @ b))) =
             rtrim (collapseSpaces (dropWhile isWhiteSpace x))"
  proof (cases "list_all isWhiteSpace x")
    case True
    then show ?thesis
      using assms(2) by (simp add: list_all_iff dropWhile_allws_set)
  next
    case False
    then have "dropWhile isWhiteSpace (x @ b) = dropWhile isWhiteSpace x @ b"
      by (auto simp: dropWhile_append list_all_iff)
    then show ?thesis using rtrim_collapse_append [OF assms(2)] by simp
  qed
  also have "\<dots> = trim (collapseSpaces x)"
    by (simp add: trim_rtrim dropWhile_collapse)
  finally show ?thesis .
qed

lemma trim_decomp:
  "\<exists>a b. list_all isWhiteSpace a \<and> list_all isWhiteSpace b \<and> s = a @ trim s @ b"
proof -
  let ?a = "takeWhile isWhiteSpace s"
  let ?m = "dropWhile isWhiteSpace s"
  let ?b = "rev (takeWhile isWhiteSpace (rev ?m))"
  have "?m = rev (dropWhile isWhiteSpace (rev ?m)) @ ?b"
    by (metis rev_append rev_rev_ident takeWhile_dropWhile_id)
  then have "s = ?a @ trim s @ ?b"
    by (metis takeWhile_dropWhile_id trim_def)
  moreover have "list_all isWhiteSpace ?a"
    by (simp add: list_all_iff) (meson set_takeWhileD)
  moreover have "list_all isWhiteSpace ?b"
    by (simp add: list_all_iff) (meson set_takeWhileD)
  ultimately show ?thesis by blast
qed

lemma ws_not_mark: "isWhiteSpace c \<Longrightarrow> \<not> (768 \<le> c \<and> c \<le> 879)"
  by (auto simp: isWhiteSpace_def)

lemma stripMarks_ws: "list_all isWhiteSpace a \<Longrightarrow> stripMarks a = a"
  by (induction a) (auto simp: stripMarks_def dest: ws_not_mark)

lemma stripMarks_append: "stripMarks (a @ b) = stripMarks a @ stripMarks b"
  by (simp add: stripMarks_def)

lemma trim_collapse_strip_trim:
  "trim (collapseSpaces (stripMarks (trim t))) = trim (collapseSpaces (stripMarks t))"
proof -
  obtain a b where ab: "list_all isWhiteSpace a" "list_all isWhiteSpace b" "t = a @ trim t @ b"
    using trim_decomp by blast
  have "stripMarks t = a @ stripMarks (trim t) @ b"
    by (subst ab(3)) (simp add: stripMarks_append stripMarks_ws ab(1,2))
  then show ?thesis by (simp add: trim_collapse_pad [OF ab(1,2)])
qed

lemma norm_trim: "unicodeOK U \<Longrightarrow> normCell U (trim s) = normCell U s"
  by (simp add: unicodeOK_def trimStable_def normCell_def trim_collapse_strip_trim)

lemma dropWhile_rtrim:
  "dropWhile isWhiteSpace (rtrim (dropWhile isWhiteSpace y)) = rtrim (dropWhile isWhiteSpace y)"
proof -
  define z where "z = dropWhile isWhiteSpace y"
  have "z = [] \<or> \<not> isWhiteSpace (hd z)"
    unfolding z_def by (metis hd_dropWhile)
  then have "dropWhile isWhiteSpace (rtrim z) = rtrim z"
    by (cases z) (auto simp: rtrim_Cons)
  then show ?thesis by (simp only: z_def)
qed

lemma rtrim_rtrim: "rtrim (rtrim y) = rtrim y"
  by (induction y) (auto simp: rtrim_Cons)

lemma trim_trim: "trim (trim s) = trim s"
  by (simp only: trim_rtrim dropWhile_rtrim rtrim_rtrim)


section \<open>Header canonicalization\<close>

lemma collapse_nonws_append:
  "list_all (\<lambda>c. \<not> isWhiteSpace c) w \<Longrightarrow> collapseSpaces (w @ r) = w @ collapseSpaces r"
  by (induction w) simp_all

lemma rtrim_append:
  "rtrim (a @ b) = (if rtrim b = [] then rtrim a else a @ rtrim b)"
  by (induction a) (simp_all add: rtrim_Cons)

lemma rtrim_nonws: "list_all (\<lambda>c. \<not> isWhiteSpace c) w \<Longrightarrow> rtrim w = w"
  by (induction w) (simp_all add: rtrim_Cons)

lemma specWords_nonempty: "list_all (\<lambda>w. w \<noteq> []) (specWords s)"
proof (induction s rule: specWords.induct)
  case (1 s)
  let ?t = "dropWhile isWhiteSpace s"
  show ?case
  proof (cases "?t = []")
    case True
    then show ?thesis by (subst specWords.simps) simp
  next
    case False
    then have "\<not> isWhiteSpace (hd ?t)" by (metis hd_dropWhile)
    then have "takeWhile (\<lambda>c. \<not> isWhiteSpace c) ?t \<noteq> []" using False by (cases ?t) simp_all
    then show ?thesis
      using False 1 [OF refl False] by (subst specWords.simps) (simp add: Let_def)
  qed
qed

lemma specJoin_eq_Nil: "list_all (\<lambda>w. w \<noteq> []) ws \<Longrightarrow> specJoin ws = [] \<longleftrightarrow> ws = []"
  by (induction ws rule: specJoin.induct) simp_all

lemma specJoin_Cons: "specJoin (w # ws) = (if ws = [] then w else w @ 32 # specJoin ws)"
  by (cases ws) simp_all

lemma collapse_at_ws:
  assumes "r = [] \<or> isWhiteSpace (hd r)"
  shows "collapseSpaces r =
         (if r = [] then [] else 32 # collapseSpaces (dropWhile isWhiteSpace r))"
  using assms by (cases r) simp_all

lemma rtrim_collapse_words:
  "rtrim (collapseSpaces (dropWhile isWhiteSpace s)) = specJoin (specWords s)"
proof (induction s rule: specWords.induct)
  case (1 s)
  define t where "t = dropWhile isWhiteSpace s"
  define w where "w = takeWhile (\<lambda>c. \<not> isWhiteSpace c) t"
  define r where "r = dropWhile (\<lambda>c. \<not> isWhiteSpace c) t"
  have nil: "specWords [] = []" by (subst specWords.simps) simp
  show ?case
  proof (cases "t = []")
    case True
    then have "specWords s = []" unfolding t_def by (subst specWords.simps) simp
    then show ?thesis using True unfolding t_def by (simp only: collapseSpaces.simps rtrim_Nil specJoin.simps)
  next
    case False
    have w: "list_all (\<lambda>c. \<not> isWhiteSpace c) w"
      unfolding list_all_iff w_def by (blast dest: set_takeWhileD)
    have sw: "specWords s = w # specWords r"
      using False unfolding t_def w_def r_def by (subst specWords.simps) (simp add: Let_def)
    have IH: "rtrim (collapseSpaces (dropWhile isWhiteSpace r)) = specJoin (specWords r)"
      using False unfolding t_def r_def by (intro 1 [OF refl])
    have t: "t = w @ r" by (simp add: w_def r_def)
    have "r = [] \<or> isWhiteSpace (hd r)"
      unfolding r_def by (metis hd_dropWhile)
    then have col: "collapseSpaces r =
               (if r = [] then [] else 32 # collapseSpaces (dropWhile isWhiteSpace r))"
      by (rule collapse_at_ws)
    have ne: "specJoin (specWords r) = [] \<longleftrightarrow> specWords r = []"
      by (rule specJoin_eq_Nil [OF specWords_nonempty])
    have "rtrim (collapseSpaces t) = rtrim (w @ collapseSpaces r)"
      by (subst t) (simp only: collapse_nonws_append [OF w])
    also have "\<dots> = specJoin (w # specWords r)"
    proof (cases "r = []")
      case True
      then show ?thesis by (simp add: nil rtrim_nonws [OF w])
    next
      case False
      show ?thesis
        using IH ne False
        by (simp add: col rtrim_append rtrim_Cons ws32 rtrim_nonws [OF w] specJoin_Cons)
    qed
    finally show ?thesis by (simp only: sw t_def)
  qed
qed

lemma trim_collapse_words: "trim (collapseSpaces s) = specJoin (specWords s)"
  by (simp only: trim_rtrim dropWhile_collapse rtrim_collapse_words)

lemma normCell_spec: "normCell U raw = specNormalize U raw"
proof -
  have "stripMarks s = filter (\<lambda>c. c \<notin> {768..879}) s" for s
    by (simp add: stripMarks_def)
  then show ?thesis
    by (simp add: normCell_def specNormalize_def specStripDiacritics_def trim_collapse_words)
qed

lemmas header_eval = canonicalHeaderName_def normCell_def stripMarks_def jstr_def isWhiteSpace_def
  trim_def Let_def

lemmas ascii_eval = asciiUnicode_def asciiUpper_def

lemmas latin1_eval = latin1Unicode_def latin1Upper_def latin1NFD_def latin1Decomposition_def

text \<open>
  C4. For every raw header cell, \<open>canonicalHeaderName\<close> normalizes the text (upper case,
  diacritics stripped, runs of white space collapsed to one space, trimmed) and applies
  the seven rules of the specification in their order, the first match winning; with no
  match the result is the original text, trimmed only. The function is total: it returns
  a string for every input. The examples are headers in lower case, with runs of white
  space (spaces; a tab and a non-breaking space), with accents (\<open>L\<close>, u with acute,
  \<open>cro\<close>, composed and decomposed), with the matched text at the start, in the middle and
  at the end, one that two rules match, and two that no rule matches.
\<close>

theorem canonicalHeaderName_rules:
  "canonicalHeaderName U raw = specCanonical U raw \<and>
   canonicalHeaderName asciiUnicode (jstr ''  data   aposta (hora) '') = jstr ''DATA APOSTA'' \<and>
   canonicalHeaderName latin1Unicode [68, 97, 116, 97, 9, 160, 65, 112, 111, 115, 116, 97] =
     jstr ''DATA APOSTA'' \<and>
   canonicalHeaderName latin1Unicode [76, 250, 99, 114, 111] = jstr ''LUCRO'' \<and>
   canonicalHeaderName asciiUnicode [76, 117, 769, 99, 114, 111] = jstr ''LUCRO'' \<and>
   canonicalHeaderName asciiUnicode (jstr '' stake'') = jstr ''STAKE'' \<and>
   canonicalHeaderName asciiUnicode (jstr ''Bookmaker'') = jstr ''CASA'' \<and>
   canonicalHeaderName asciiUnicode (jstr ''Esportes'') = jstr ''ESPORTE'' \<and>
   canonicalHeaderName asciiUnicode (jstr ''Hora / data  jogo'') = jstr ''DATA EVENTO'' \<and>
   canonicalHeaderName asciiUnicode (jstr ''Rematch'') = jstr ''EVENTO'' \<and>
   canonicalHeaderName asciiUnicode (jstr ''Book (data aposta)'') = jstr ''DATA APOSTA'' \<and>
   canonicalHeaderName asciiUnicode (jstr ''  Odd   final '') = jstr ''Odd   final'' \<and>
   canonicalHeaderName asciiUnicode (jstr ''Lucro total'') = jstr ''Lucro total''"
proof -
  have a: "canonicalHeaderName U raw = specCanonical U raw"
    by (simp add: canonicalHeaderName_def specCanonical_def specHeaderRules_def
        normCell_spec [symmetric] Let_def)
  have b: "canonicalHeaderName asciiUnicode (jstr ''  data   aposta (hora) '') = jstr ''DATA APOSTA''"
    by (simp add: header_eval ascii_eval)
  have c: "canonicalHeaderName latin1Unicode [76, 250, 99, 114, 111] = jstr ''LUCRO''"
    by (simp add: header_eval latin1_eval)
  have t: "canonicalHeaderName latin1Unicode [68, 97, 116, 97, 9, 160, 65, 112, 111, 115, 116, 97] =
           jstr ''DATA APOSTA''"
    by (simp add: header_eval latin1_eval)
  have d: "canonicalHeaderName asciiUnicode [76, 117, 769, 99, 114, 111] = jstr ''LUCRO''"
    by (simp add: header_eval ascii_eval)
  have e: "canonicalHeaderName asciiUnicode (jstr '' stake'') = jstr ''STAKE''"
    by (simp add: header_eval ascii_eval)
  have f: "canonicalHeaderName asciiUnicode (jstr ''Bookmaker'') = jstr ''CASA''"
    by (simp add: header_eval ascii_eval)
  have g: "canonicalHeaderName asciiUnicode (jstr ''Esportes'') = jstr ''ESPORTE''"
    by (simp add: header_eval ascii_eval)
  have h: "canonicalHeaderName asciiUnicode (jstr ''Hora / data  jogo'') = jstr ''DATA EVENTO''"
    by (simp add: header_eval ascii_eval)
  have i: "canonicalHeaderName asciiUnicode (jstr ''Rematch'') = jstr ''EVENTO''"
    by (simp add: header_eval ascii_eval)
  have j: "canonicalHeaderName asciiUnicode (jstr ''Book (data aposta)'') = jstr ''DATA APOSTA''"
    by (simp add: header_eval ascii_eval)
  have k: "canonicalHeaderName asciiUnicode (jstr ''  Odd   final '') = jstr ''Odd   final''"
    by (simp add: header_eval ascii_eval)
  have l: "canonicalHeaderName asciiUnicode (jstr ''Lucro total'') = jstr ''Lucro total''"
    by (simp add: header_eval ascii_eval)
  show ?thesis using a b t c d e f g h i j k l by (simp only: simp_thms)
qed

section \<open>The header of the first tab is reused\<close>

lemma canonical_unmatched:
  "\<not> matchesRule (normCell U raw) \<Longrightarrow> canonicalHeaderName U raw = trim raw"
  by (simp add: matchesRule_def specHeaderRules_def canonicalHeaderName_def Let_def)

lemma canonical_matched:
  "matchesRule (normCell U raw) \<Longrightarrow> canonicalHeaderName U raw \<in> set canonicalNames"
  by (auto simp: matchesRule_def specHeaderRules_def canonicalHeaderName_def Let_def
      canonicalNames_def)

lemma norm_canonical_name:
  assumes "unicodeOK U" "n \<in> set canonicalNames"
  shows "normCell U n = n"
proof -
  have fixd: "toUpperCase U n = n" "normalizeNFD U n = n"
    using assms by (auto simp: unicodeOK_def list_all_iff)
  have "trim (collapseSpaces (stripMarks n)) = n"
    using assms(2) by (auto simp: canonicalNames_def str_eval stripMarks_def)
  then show ?thesis by (simp add: normCell_def fixd)
qed

lemma canonical_name_fixed:
  assumes "unicodeOK U" "n \<in> set canonicalNames"
  shows "canonicalHeaderName U n = n"
proof -
  have n: "normCell U n = n" by (rule norm_canonical_name [OF assms])
  have step: "canonicalHeaderName U c = c"
    if "normCell U c = c" and
       "c = jstr ''DATA APOSTA'' \<or> c = jstr ''LUCRO'' \<or> c = jstr ''STAKE'' \<or> c = jstr ''CASA'' \<or>
        c = jstr ''ESPORTE'' \<or> c = jstr ''DATA EVENTO'' \<or> c = jstr ''EVENTO''" for c
    using that(2)
  proof (elim disjE)
    assume c: "c = jstr ''DATA APOSTA''"
    show ?thesis using that(1) unfolding c canonicalHeaderName_def Let_def
      by (simp only:) (simp add: jstr_def)
  next
    assume c: "c = jstr ''LUCRO''"
    show ?thesis using that(1) unfolding c canonicalHeaderName_def Let_def
      by (simp only:) (simp add: jstr_def)
  next
    assume c: "c = jstr ''STAKE''"
    show ?thesis using that(1) unfolding c canonicalHeaderName_def Let_def
      by (simp only:) (simp add: jstr_def)
  next
    assume c: "c = jstr ''CASA''"
    show ?thesis using that(1) unfolding c canonicalHeaderName_def Let_def
      by (simp only:) (simp add: jstr_def)
  next
    assume c: "c = jstr ''ESPORTE''"
    show ?thesis using that(1) unfolding c canonicalHeaderName_def Let_def
      by (simp only:) (simp add: jstr_def)
  next
    assume c: "c = jstr ''DATA EVENTO''"
    show ?thesis using that(1) unfolding c canonicalHeaderName_def Let_def
      by (simp only:) (simp add: jstr_def)
  next
    assume c: "c = jstr ''EVENTO''"
    show ?thesis using that(1) unfolding c canonicalHeaderName_def Let_def
      by (simp only:) (simp add: jstr_def)
  qed
  show ?thesis
    using assms(2) by (intro step n) (simp add: canonicalNames_def)
qed

lemma canonicalHeaderName_idem:
  assumes "unicodeOK U"
  shows "canonicalHeaderName U (canonicalHeaderName U raw) = canonicalHeaderName U raw"
proof (cases "matchesRule (normCell U raw)")
  case True
  then show ?thesis
    using canonical_matched canonical_name_fixed [OF assms] by blast
next
  case False
  then have "\<not> matchesRule (normCell U (trim raw))"
    by (simp add: norm_trim [OF assms])
  then have "canonicalHeaderName U (trim raw) = trim (trim raw)"
    by (rule canonical_unmatched)
  then show ?thesis
    by (simp add: canonical_unmatched [OF False] trim_trim)
qed

text \<open>
  C5. When \<open>extractRowsFromValues\<close> is given the canonical header that an earlier tab of
  the sheet established, and the grid of the tab has a row with a cell whose normalized
  text contains \<open>DATA APOSTA\<close>, the header it returns is exactly the header supplied: the
  text of the tab's own header row is not used, only its position, below which the data
  rows start and are read by the columns of the supplied header.
\<close>

theorem later_tab_reuses_header:
  assumes "unicodeOK U"
    and "fst (extractRowsFromValues U values0 None) = Some mainHeader"
    and "findIndex (isHeaderRow U) values = Some headerIndex"
  shows "extractRowsFromValues U values (Some mainHeader) =
     (Some mainHeader,
      map (\<lambda>r. projectRow mainHeader 0 r Map.empty)
        (filter (list_ex (\<lambda>c. trim c \<noteq> [])) (drop (headerIndex + 1) values)))"
proof -
  obtain raw where raw: "mainHeader = map (canonicalHeaderName U) raw"
    using assms(2)
    by (auto simp: extractRowsFromValues_def Let_def split: if_splits option.splits)
  have idem: "map (canonicalHeaderName U) mainHeader = mainHeader"
    by (simp add: raw canonicalHeaderName_idem [OF assms(1)])
  have "values \<noteq> []" using assms(3) by auto
  then show ?thesis
    by (simp add: extractRowsFromValues_def assms(3) idem Let_def)
qed

lemma map_trim:
  assumes "\<And>c. isWhiteSpace (f c) = isWhiteSpace c"
  shows "map f (trim s) = trim (map f s)"
proof -
  have "isWhiteSpace \<circ> f = isWhiteSpace" using assms by (auto simp: fun_eq_iff)
  then show ?thesis by (simp add: trim_def rev_map dropWhile_map)
qed

lemma asciiUpper_ws: "isWhiteSpace (asciiUpper c) = isWhiteSpace c"
  by (auto simp: asciiUpper_def isWhiteSpace_def)

lemma unicodeOK_ascii: "unicodeOK asciiUnicode"
proof -
  have "trimStable (map asciiUpper)"
    by (simp add: trimStable_def map_trim [OF asciiUpper_ws])
  moreover have "trimStable (\<lambda>s. s)" by (simp add: trimStable_def)
  moreover have "list_all (\<lambda>n. map asciiUpper n = n) canonicalNames"
    by (simp add: canonicalNames_def jstr_def asciiUpper_def)
  ultimately show ?thesis by (simp add: unicodeOK_def asciiUnicode_def list_all_iff)
qed

lemma norm_ascii_eval:
  "normCell asciiUnicode s = trim (collapseSpaces (stripMarks (map asciiUpper s)))"
  by (simp add: normCell_def asciiUnicode_def)

lemma tabA_header:
  "fst (extractRowsFromValues asciiUnicode tabA None) =
     Some [jstr ''DATA APOSTA'', jstr ''LUCRO'', jstr ''STAKE'']"
  by (simp add: extractRowsFromValues_def tabA_def isHeaderRow_def norm_ascii_eval
      canonicalHeaderName_def str_eval stripMarks_def asciiUpper_def Let_def)

lemma tabB_index: "findIndex (isHeaderRow asciiUnicode) tabB = Some 0"
  by (simp add: tabB_def isHeaderRow_def norm_ascii_eval str_eval stripMarks_def asciiUpper_def)

theorem later_tab_reuses_header_witness:
  "unicodeOK asciiUnicode \<and>
   fst (extractRowsFromValues asciiUnicode tabA None) =
     Some [jstr ''DATA APOSTA'', jstr ''LUCRO'', jstr ''STAKE''] \<and>
   findIndex (isHeaderRow asciiUnicode) tabB = Some 0 \<and>
   extractRowsFromValues asciiUnicode tabB
       (Some [jstr ''DATA APOSTA'', jstr ''LUCRO'', jstr ''STAKE'']) =
     (Some [jstr ''DATA APOSTA'', jstr ''LUCRO'', jstr ''STAKE''],
      map (\<lambda>r. projectRow [jstr ''DATA APOSTA'', jstr ''LUCRO'', jstr ''STAKE''] 0 r Map.empty)
        (filter (list_ex (\<lambda>c. trim c \<noteq> [])) (drop (0 + 1) tabB)))"
  by (intro conjI unicodeOK_ascii tabA_header tabB_index
      later_tab_reuses_header [OF unicodeOK_ascii tabA_header tabB_index])

text \<open>Once a tab has given the header, the loop over the tabs keeps it.\<close>

lemma tabsLoop_keeps_header:
  "snd (tabsLoop U tabs (allRows, Some mainHeader)) = Some mainHeader"
proof (induction tabs arbitrary: allRows)
  case Nil
  show ?case by simp
next
  case (Cons t tabs)
  show ?case
  proof (cases t)
    case None
    then show ?thesis by (simp add: Cons.IH)
  next
    case (Some grid)
    then show ?thesis by (simp add: Cons.IH split: prod.splits)
  qed
qed

section \<open>Dictionaries built by a loop\<close>

lemma firstOcc_Nil [simp]: "firstOcc [] = []"
  by (simp add: firstOcc_def)

lemma firstOcc_snoc:
  "firstOcc (ks @ [k]) = (if k \<in> set ks then firstOcc ks else firstOcc ks @ [k])"
  by (simp add: firstOcc_def)

lemma set_firstOcc [simp]: "set (firstOcc ks) = set ks"
  by (simp add: firstOcc_def)

lemma distinct_firstOcc [simp]: "distinct (firstOcc ks)"
  by (simp add: firstOcc_def)

lemma hasOwn_map: "hasOwn k (map (\<lambda>k. (k, V k)) K) \<longleftrightarrow> k \<in> set K"
  by (induction K) (auto simp: hasOwn_def)

lemma updateOwn_map:
  "updateOwn k f (map (\<lambda>k. (k, V k)) K) = map (\<lambda>k'. (k', if k' = k then f (V k') else V k')) K"
  by (simp add: updateOwn_def)

lemma updateOwn_append:
  "updateOwn k f (xs @ ys) = updateOwn k f xs @ updateOwn k f ys"
  by (simp add: updateOwn_def)

lemma valueAt_snoc_other:
  "key x \<noteq> k \<Longrightarrow> valueAt key init step (xs @ [x]) k = valueAt key init step xs k"
  by (simp add: valueAt_def)

lemma valueAt_snoc_new:
  "key x \<notin> key ` set xs \<Longrightarrow> valueAt key init step (xs @ [x]) (key x) = step x (init x)"
proof -
  assume "key x \<notin> key ` set xs"
  then have "filter (\<lambda>y. key y = key x) xs = []"
    by (auto simp: filter_empty_conv image_iff)
  then show ?thesis by (simp add: valueAt_def)
qed

lemma valueAt_snoc_old:
  "key x \<in> key ` set xs \<Longrightarrow>
   valueAt key init step (xs @ [x]) (key x) = step x (valueAt key init step xs (key x))"
proof -
  assume "key x \<in> key ` set xs"
  then have "filter (\<lambda>y. key y = key x) xs \<noteq> []"
    by (auto simp: filter_empty_conv image_iff)
  then show ?thesis by (simp add: valueAt_def)
qed

lemma groupFold_snoc:
  "groupFold key init step (xs @ [x]) =
   upsert (key x) (init x) (step x) (groupFold key init step xs)"
  by (simp add: groupFold_def)

lemma groupFold_closed:
  "groupFold key init step xs =
   map (\<lambda>k. (k, valueAt key init step xs k)) (firstOcc (map key xs))"
proof (induction xs rule: rev_induct)
  case Nil
  show ?case by (simp add: groupFold_def)
next
  case (snoc x xs)
  let ?K = "firstOcc (map key xs)"
  let ?V = "valueAt key init step xs"
  let ?V' = "valueAt key init step (xs @ [x])"
  show ?case
  proof (cases "key x \<in> key ` set xs")
    case True
    have "groupFold key init step (xs @ [x]) =
          map (\<lambda>k'. (k', if k' = key x then step x (?V k') else ?V k')) ?K"
      using True by (simp add: groupFold_snoc snoc.IH upsert_def hasOwn_map updateOwn_map)
    also have "\<dots> = map (\<lambda>k. (k, ?V' k)) ?K"
      using True by (auto simp: valueAt_snoc_old valueAt_snoc_other)
    also have "?K = firstOcc (map key (xs @ [x]))"
      using True by (simp add: firstOcc_snoc)
    finally show ?thesis .
  next
    case False
    have "groupFold key init step (xs @ [x]) =
          map (\<lambda>k'. (k', if k' = key x then step x (?V k') else ?V k')) ?K @
          [(key x, step x (init x))]"
      using False
      by (simp add: groupFold_snoc snoc.IH upsert_def hasOwn_map updateOwn_map updateOwn_append)
         (simp add: updateOwn_def)
    also have "map (\<lambda>k'. (k', if k' = key x then step x (?V k') else ?V k')) ?K =
               map (\<lambda>k. (k, ?V' k)) ?K"
      using False by (auto simp: valueAt_snoc_other image_iff)
    also have "map (\<lambda>k. (k, ?V' k)) ?K @ [(key x, step x (init x))] =
               map (\<lambda>k. (k, ?V' k)) (?K @ [key x])"
      using False by (simp add: valueAt_snoc_new)
    also have "?K @ [key x] = firstOcc (map key (xs @ [x]))"
      using False by (simp add: firstOcc_snoc)
    finally show ?thesis .
  qed
qed

lemma foldl_skip:
  "foldl (\<lambda>obj x. if P x then obj else g obj x) obj xs = foldl g obj (filter (\<lambda>x. \<not> P x) xs)"
  by (induction xs arbitrary: obj) auto

section \<open>Sums that do not round\<close>

text \<open>
  For data that \<open>dyadicData\<close> describes, every sum of some of the values is a multiple of
  \<open>2 ^ - k\<close> of magnitude below \<open>2 ^ (53 - k)\<close>, hence a double: the additions of the
  program return the exact sums.
\<close>

lemma dyadic_Fin: "dyadic k a \<Longrightarrow> a = Fin (realOf a) \<and> realOf a * 2 ^ k \<in> \<int>"
  by (cases a) (simp_all add: dyadic_def realOf_def)

lemma dyadic_sum:
  "list_all (\<lambda>x. dyadic k (f x)) ys \<Longrightarrow> (\<Sum>y\<leftarrow>ys. realOf (f y)) * 2 ^ k \<in> \<int>"
proof (induction ys)
  case Nil
  show ?case by simp
next
  case (Cons y ys)
  have "realOf (f y) * 2 ^ k \<in> \<int>" using Cons.prems dyadic_Fin by simp
  moreover have "(\<Sum>y\<leftarrow>ys. realOf (f y)) * 2 ^ k \<in> \<int>" using Cons by simp
  ultimately show ?case by (simp add: distrib_right)
qed

lemma abs_sum_le: "\<bar>\<Sum>y\<leftarrow>ys. realOf (f y)\<bar> \<le> (\<Sum>y\<leftarrow>ys. \<bar>realOf (f y)\<bar>)"
  using sum_list_abs [of "map (\<lambda>y. realOf (f y)) ys"] by (simp add: comp_def)

lemma round64_exact:
  assumes "x * 2 ^ k \<in> \<int>" "\<bar>x\<bar> * 2 ^ k < 2 ^ 53" "k \<le> 1074"
  shows "round64 x = Fin x"
proof -
  obtain m :: int where m: "x * 2 ^ k = of_int m" using assms(1) by (auto elim: Ints_cases)
  then have x: "x = of_int m / 2 ^ k" by (simp add: field_simps)
  have "\<bar>x\<bar> * 2 ^ k = \<bar>x * 2 ^ k\<bar>" by (simp add: abs_mult)
  then have "\<bar>of_int m :: real\<bar> < 2 ^ 53" using assms(2) m by simp
  then have "(of_int \<bar>m\<bar> :: real) < 2 ^ 53" by simp
  then have "\<bar>m\<bar> < 2 ^ 53" by (metis of_int_less_numeral_power_cancel_iff)
  then show ?thesis unfolding x using assms(3) by (rule round64_dyadic)
qed

lemma total_exact:
  assumes "dyadicData k f ys"
  shows "round64 (\<Sum>y\<leftarrow>ys. realOf (f y)) = Fin (\<Sum>y\<leftarrow>ys. realOf (f y))"
proof (rule round64_exact)
  show "(\<Sum>y\<leftarrow>ys. realOf (f y)) * 2 ^ k \<in> \<int>"
    using assms by (intro dyadic_sum) (simp add: dyadicData_def)
  have "\<bar>\<Sum>y\<leftarrow>ys. realOf (f y)\<bar> * 2 ^ k \<le> (\<Sum>y\<leftarrow>ys. \<bar>realOf (f y)\<bar>) * 2 ^ k"
    by (intro mult_right_mono abs_sum_le) simp
  then show "\<bar>\<Sum>y\<leftarrow>ys. realOf (f y)\<bar> * 2 ^ k < 2 ^ 53"
    using assms unfolding dyadicData_def by linarith
  show "k \<le> 1074" using assms by (simp add: dyadicData_def)
qed

lemma sum_list_sub_mset:
  fixes g :: "'a \<Rightarrow> real"
  assumes "mset ys \<subseteq># mset xs" "\<And>x. 0 \<le> g x"
  shows "(\<Sum>y\<leftarrow>ys. g y) \<le> (\<Sum>x\<leftarrow>xs. g x)"
proof -
  obtain D where D: "mset xs = mset ys + D"
    using assms(1) by (metis mset_subset_eq_exists_conv)
  have "(\<Sum>x\<leftarrow>xs. g x) = sum_mset (image_mset g (mset xs))"
    by (metis mset_map sum_mset_sum_list)
  also have "\<dots> = sum_mset (image_mset g (mset ys)) + sum_mset (image_mset g D)"
    by (simp add: D)
  also have "sum_mset (image_mset g (mset ys)) = (\<Sum>y\<leftarrow>ys. g y)"
    by (metis mset_map sum_mset_sum_list)
  finally have "(\<Sum>x\<leftarrow>xs. g x) = (\<Sum>y\<leftarrow>ys. g y) + sum_mset (image_mset g D)" .
  moreover have "0 \<le> sum_mset (image_mset g D)"
    by (induction D) (simp_all add: assms(2))
  ultimately show ?thesis by linarith
qed

lemma dyadicData_sub:
  assumes "dyadicData k f xs" "mset ys \<subseteq># mset xs"
  shows "dyadicData k f ys"
proof -
  have "set ys \<subseteq> set xs" using assms(2) by (metis set_mset_mono set_mset_mset)
  then have a: "list_all (\<lambda>x. dyadic k (f x)) ys"
    using assms(1) by (auto simp: dyadicData_def list_all_iff)
  have "(\<Sum>y\<leftarrow>ys. \<bar>realOf (f y)\<bar>) \<le> (\<Sum>x\<leftarrow>xs. \<bar>realOf (f x)\<bar>)"
    by (rule sum_list_sub_mset [OF assms(2)]) simp
  then have "(\<Sum>y\<leftarrow>ys. \<bar>realOf (f y)\<bar>) * 2 ^ k \<le> (\<Sum>x\<leftarrow>xs. \<bar>realOf (f x)\<bar>) * 2 ^ k"
    by (intro mult_right_mono) simp_all
  moreover have "k \<le> 1074" "(\<Sum>x\<leftarrow>xs. \<bar>realOf (f x)\<bar>) * 2 ^ k < 2 ^ 53"
    using assms(1) by (simp_all add: dyadicData_def)
  ultimately have "(\<Sum>y\<leftarrow>ys. \<bar>realOf (f y)\<bar>) * 2 ^ k < 2 ^ 53" by linarith
  then show ?thesis using a \<open>k \<le> 1074\<close> unfolding dyadicData_def by blast
qed

lemma dyadicData_filter: "dyadicData k f xs \<Longrightarrow> dyadicData k f (filter P xs)"
  by (erule dyadicData_sub) simp

lemma dyadicData_mset: "mset ys = mset xs \<Longrightarrow> dyadicData k f xs \<Longrightarrow> dyadicData k f ys"
  by (erule dyadicData_sub) simp

lemma dyadicData_prefix: "dyadicData k f (ys @ [y]) \<Longrightarrow> dyadicData k f ys"
  by (erule dyadicData_sub) simp

lemma dyadicData_Fin: "dyadicData k f xs \<Longrightarrow> x \<in> set xs \<Longrightarrow> f x = Fin (realOf (f x))"
  using dyadic_Fin by (auto simp: dyadicData_def list_all_iff)

lemma add_exact:
  assumes "dyadicData k f (ys @ [y])"
  shows "jadd round64 (Fin (\<Sum>z\<leftarrow>ys. realOf (f z))) (f y) = Fin (\<Sum>z\<leftarrow>ys @ [y]. realOf (f z))"
proof -
  have u: "f y = Fin (realOf (f y))" by (rule dyadicData_Fin [OF assms]) simp
  have "jadd round64 (Fin (\<Sum>z\<leftarrow>ys. realOf (f z))) (f y) =
        round64 ((\<Sum>z\<leftarrow>ys. realOf (f z)) + realOf (f y))"
    by (subst u) simp
  also have "\<dots> = round64 (\<Sum>z\<leftarrow>ys @ [y]. realOf (f z))" by simp
  also have "\<dots> = Fin (\<Sum>z\<leftarrow>ys @ [y]. realOf (f z))" by (rule total_exact [OF assms])
  finally show ?thesis .
qed

lemma sum_exact:
  "dyadicData k f ys \<Longrightarrow>
   foldl (\<lambda>a y. jadd round64 a (f y)) (Fin 0) ys = Fin (\<Sum>y\<leftarrow>ys. realOf (f y))"
proof (induction ys rule: rev_induct)
  case Nil
  show ?case by simp
next
  case (snoc y ys)
  have "foldl (\<lambda>a y. jadd round64 a (f y)) (Fin 0) ys = Fin (\<Sum>y\<leftarrow>ys. realOf (f y))"
    by (rule snoc.IH [OF dyadicData_prefix [OF snoc.prems]])
  then show ?case using add_exact [OF snoc.prems] by simp
qed

lemma sumNums_exact:
  "dyadicData k (\<lambda>z. z) zs \<Longrightarrow> sumNums round64 zs = Fin (\<Sum>z\<leftarrow>zs. realOf z)"
  using sum_exact [of k "\<lambda>z. z" zs] by (simp add: sumNums_def)

lemma sum_list_delta:
  "distinct K \<Longrightarrow> (\<Sum>k\<leftarrow>K. if k0 = k then c else (0::real)) = (if k0 \<in> set K then c else 0)"
  by (induction K) auto

lemma sum_partition:
  fixes f :: "'x \<Rightarrow> real"
  assumes "distinct K" "key ` set xs \<subseteq> set K"
  shows "(\<Sum>k\<leftarrow>K. \<Sum>x\<leftarrow>filter (\<lambda>x. key x = k) xs. f x) = (\<Sum>x\<leftarrow>xs. f x)"
  using assms(2)
proof (induction xs)
  case Nil
  show ?case by simp
next
  case (Cons x xs)
  have "(\<Sum>k\<leftarrow>K. \<Sum>y\<leftarrow>filter (\<lambda>y. key y = k) (x # xs). f y) =
        (\<Sum>k\<leftarrow>K. (if key x = k then f x else 0) + (\<Sum>y\<leftarrow>filter (\<lambda>y. key y = k) xs. f y))"
    by (intro arg_cong [where f = sum_list] map_cong) auto
  also have "\<dots> = (\<Sum>k\<leftarrow>K. if key x = k then f x else 0) +
                  (\<Sum>k\<leftarrow>K. \<Sum>y\<leftarrow>filter (\<lambda>y. key y = k) xs. f y)"
    by (simp add: sum_list_addf)
  also have "\<dots> = f x + (\<Sum>y\<leftarrow>xs. f y)"
    using Cons assms(1) by (simp add: sum_list_delta)
  finally show ?case by simp
qed

lemma sum_list_le:
  fixes f g :: "'a \<Rightarrow> real"
  shows "(\<And>x. x \<in> set K \<Longrightarrow> f x \<le> g x) \<Longrightarrow> (\<Sum>x\<leftarrow>K. f x) \<le> (\<Sum>x\<leftarrow>K. g x)"
  by (induction K) (simp_all add: add_mono)

lemma groups_exact:
  assumes "dyadicData k l xs" "distinct K" "key ` set xs \<subseteq> set K"
    and "\<And>k'. k' \<in> set K \<Longrightarrow>
           g (h k') = Fin (\<Sum>x\<leftarrow>filter (\<lambda>x. key x = k') xs. realOf (l x))"
  shows "dyadicData k g (map h K)"
proof -
  have d: "dyadic k (g (h k'))" if "k' \<in> set K" for k'
  proof -
    have "list_all (\<lambda>x. dyadic k (l x)) (filter (\<lambda>x. key x = k') xs)"
      using assms(1) by (simp add: dyadicData_def list_all_iff)
    then have "(\<Sum>x\<leftarrow>filter (\<lambda>x. key x = k') xs. realOf (l x)) * 2 ^ k \<in> \<int>"
      by (rule dyadic_sum)
    then show ?thesis by (simp add: assms(4) [OF that] dyadic_def)
  qed
  have "(\<Sum>k'\<leftarrow>K. \<bar>realOf (g (h k'))\<bar>) \<le>
        (\<Sum>k'\<leftarrow>K. \<Sum>x\<leftarrow>filter (\<lambda>x. key x = k') xs. \<bar>realOf (l x)\<bar>)"
    by (rule sum_list_le) (simp add: assms(4) realOf_def abs_sum_le [unfolded realOf_def])
  also have "\<dots> = (\<Sum>x\<leftarrow>xs. \<bar>realOf (l x)\<bar>)"
    by (rule sum_partition [OF assms(2,3)])
  finally have "(\<Sum>k'\<leftarrow>K. \<bar>realOf (g (h k'))\<bar>) * 2 ^ k \<le> (\<Sum>x\<leftarrow>xs. \<bar>realOf (l x)\<bar>) * 2 ^ k"
    by (intro mult_right_mono) simp_all
  moreover have "k \<le> 1074" "(\<Sum>x\<leftarrow>xs. \<bar>realOf (l x)\<bar>) * 2 ^ k < 2 ^ 53"
    using assms(1) by (simp_all add: dyadicData_def)
  ultimately have "(\<Sum>k'\<leftarrow>K. \<bar>realOf (g (h k'))\<bar>) * 2 ^ k < 2 ^ 53" by linarith
  then show ?thesis
    using d \<open>k \<le> 1074\<close> by (simp add: dyadicData_def list_all_iff comp_def)
qed

section \<open>Breakdowns\<close>

lemma bumpBucket_fun:
  "bumpBucket rnd l s =
     (\<lambda>b. b\<lparr>entradas := entradas b + 1, b_lucro := jadd rnd (b_lucro b) l,
             stake_total := jadd rnd (stake_total b) s\<rparr>)"
  by (simp add: fun_eq_iff bumpBucket_def)

lemma addToBucket_upsert:
  "addToBucket rnd k l s obj =
     (if plainKey k then upsert k (emptyBucket k) (bumpBucket rnd l s) obj else obj)"
  by (simp add: addToBucket_def upsert_def emptyBucket_def bumpBucket_fun plainKey_def)

lemma foldl_keep:
  "foldl (\<lambda>obj x. if P x then g obj x else obj) obj xs = foldl g obj (filter P xs)"
  by (induction xs arbitrary: obj) auto

lemma bucketFold_groupFold:
  "bucketFold rnd key l s xs =
     groupFold key (\<lambda>x. emptyBucket (key x)) (\<lambda>x. bumpBucket rnd (l x) (s x))
       (filter (\<lambda>x. plainKey (key x)) xs)"
  by (simp add: bucketFold_def addToBucket_upsert foldl_keep groupFold_def)

lemma b_lucro_fold:
  "b_lucro (foldl (\<lambda>b x. bumpBucket rnd (l x) (s x) b) b0 ys) =
     foldl (\<lambda>a x. jadd rnd a (l x)) (b_lucro b0) ys"
  by (induction ys arbitrary: b0) (simp_all add: bumpBucket_def)

lemma b_lucro_valueAt:
  assumes "dyadicData k l xs"
  shows "b_lucro (valueAt key (\<lambda>x. emptyBucket (key x)) (\<lambda>x. bumpBucket round64 (l x) (s x)) xs k') =
         Fin (\<Sum>x\<leftarrow>filter (\<lambda>x. key x = k') xs. realOf (l x))"
  by (simp add: valueAt_def b_lucro_fold emptyBucket_def sum_exact [OF dyadicData_filter [OF assms]])

lemma mset_ownPropertyOrder: "mset (ownPropertyOrder obj) = mset obj"
  by (simp add: ownPropertyOrder_def)

lemma sum_list_mset_cong:
  fixes f :: "'a \<Rightarrow> real"
  shows "mset xs = mset ys \<Longrightarrow> sum_list (map f xs) = sum_list (map f ys)"
  by (metis mset_map sum_mset_sum_list)

lemma b_lucro_withYield: "b_lucro (withYield rnd b) = b_lucro b"
  by (simp add: withYield_def)

lemma sum_bucketFold:
  assumes "dyadicData k l xs"
  shows "sumNums round64 (map b_lucro (objectValues round64 (bucketFold round64 key l s xs))) =
         Fin (\<Sum>x\<leftarrow>filter (\<lambda>x. plainKey (key x)) xs. realOf (l x))"
proof -
  let ?xs = "filter (\<lambda>x. plainKey (key x)) xs"
  let ?K = "firstOcc (map key ?xs)"
  let ?V = "valueAt key (\<lambda>x. emptyBucket (key x)) (\<lambda>x. bumpBucket round64 (l x) (s x)) ?xs"
  let ?m = "bucketFold round64 key l s xs"
  let ?zs = "map (\<lambda>p. b_lucro (snd p)) (ownPropertyOrder ?m)"
  have ex: "dyadicData k l ?xs" by (rule dyadicData_filter [OF assms])
  have closed: "?m = map (\<lambda>k. (k, ?V k)) ?K"
    by (simp add: bucketFold_groupFold groupFold_closed)
  have val: "b_lucro (?V k') = Fin (\<Sum>x\<leftarrow>filter (\<lambda>x. key x = k') ?xs. realOf (l x))" for k'
    by (rule b_lucro_valueAt [OF ex])
  have vals: "map b_lucro (objectValues round64 ?m) = ?zs"
    by (simp add: objectValues_def b_lucro_withYield)
  have "dyadicData k (\<lambda>z. z) (map (\<lambda>k'. b_lucro (?V k')) ?K)"
    by (rule groups_exact [OF ex, where key = key]) (simp_all add: val)
  moreover have "mset ?zs = mset (map (\<lambda>k'. b_lucro (?V k')) ?K)"
    by (simp add: mset_ownPropertyOrder closed multiset.map_comp comp_def)
  ultimately have "dyadicData k (\<lambda>z. z) ?zs" by (rule dyadicData_mset [rotated])
  then have "sumNums round64 ?zs = Fin (\<Sum>z\<leftarrow>?zs. realOf z)"
    by (rule sumNums_exact)
  also have "(\<Sum>z\<leftarrow>?zs. realOf z) = (\<Sum>p\<leftarrow>ownPropertyOrder ?m. realOf (b_lucro (snd p)))"
    by (simp add: comp_def)
  also have "\<dots> = (\<Sum>p\<leftarrow>?m. realOf (b_lucro (snd p)))"
    by (rule sum_list_mset_cong) (rule mset_ownPropertyOrder)
  also have "\<dots> = (\<Sum>k\<leftarrow>?K. \<Sum>x\<leftarrow>filter (\<lambda>x. key x = k) ?xs. realOf (l x))"
    by (simp add: closed val comp_def realOf_def)
  also have "\<dots> = (\<Sum>x\<leftarrow>?xs. realOf (l x))"
    by (rule sum_partition) simp_all
  finally show ?thesis by (simp only: vals)
qed

lemma casaMap_bucketFold:
  "casaMap rnd data = bucketFold rnd casa lucro stake (filter (\<lambda>d. casa d \<noteq> []) data)"
  by (simp add: casaMap_def bucketFold_def foldl_skip)

lemma sumLucro_sumNums: "sumLucro rnd data = sumNums rnd (map lucro data)"
  by (simp add: sumLucro_def sumNums_def foldl_map)

lemma round64_zero: "round64 0 = Fin 0"
  by (simp add: round64_def)

lemma round64_tenth: "round64 (1 / 10) = Fin (3602879701896397 / 36028797018963968)"
  by (rule round64I [where q = "1 / 2 ^ 56" and m = 7205759403792794])
     (simp_all add: quantum_eval half_even_eval)

lemma round64_four_tenths: "round64 (2 / 5) = Fin (3602879701896397 / 9007199254740992)"
  by (rule round64I [where q = "1 / 2 ^ 54" and m = 7205759403792794])
     (simp_all add: quantum_eval half_even_eval)

lemma round64_d01: "round64 (3602879701896397 / 36028797018963968) = Fin (3602879701896397 / 36028797018963968)"
  by (rule round64I [where q = "1 / 2 ^ 56" and m = 7205759403792794])
     (simp_all add: quantum_eval half_even_eval)

lemma round64_d04: "round64 (3602879701896397 / 9007199254740992) = Fin (3602879701896397 / 9007199254740992)"
  by (rule round64I [where q = "1 / 2 ^ 54" and m = 7205759403792794])
     (simp_all add: quantum_eval half_even_eval)

lemma round64_A: "round64 (18014398509481985 / 36028797018963968) = Fin (1 / 2)"
  by (rule round64I [where q = "1 / 2 ^ 53" and m = 4503599627370496])
     (simp_all add: quantum_eval half_even_eval)

lemma round64_half: "round64 (1 / 2) = Fin (1 / 2)"
  by (rule round64I [where q = "1 / 2 ^ 53" and m = 4503599627370496])
     (simp_all add: quantum_eval half_even_eval)

lemma round64_lhs: "round64 (21617278211378381 / 36028797018963968) = Fin (5404319552844595 / 9007199254740992)"
  by (rule round64I [where q = "1 / 2 ^ 53" and m = 5404319552844595])
     (simp_all add: quantum_eval half_even_eval)

lemma round64_d02: "round64 (3602879701896397 / 18014398509481984) = Fin (3602879701896397 / 18014398509481984)"
  by (rule round64I [where q = "1 / 2 ^ 55" and m = 7205759403792794])
     (simp_all add: quantum_eval half_even_eval)

lemma round64_rhs: "round64 (10808639105689191 / 18014398509481984) = Fin (1351079888211149 / 2251799813685248)"
  by (rule round64I [where q = "1 / 2 ^ 53" and m = 5404319552844596])
     (simp_all add: quantum_eval half_even_eval)

lemmas round64_sums = round64_zero round64_d01 round64_d04 round64_A round64_half round64_lhs
  round64_d02 round64_rhs

lemma parse_tenths:
  "parseNumber round64 (JStr (jstr ''0,1'')) = Fin (3602879701896397 / 36028797018963968) \<and>
   parseNumber round64 (JStr (jstr ''0,4'')) = Fin (3602879701896397 / 9007199254740992)"
  by (simp add: str_eval num_eval round64_tenth round64_four_tenths)

lemma plain_AB: "plainKey (jstr ''A'')" "plainKey (jstr ''B'')"
  by (simp_all add: plainKey_def objectPrototypeKeys_def jstr_def)

lemma casaMap_floatExample:
  "casaMap round64 floatExample =
     [(jstr ''A'', \<lparr>bname = jstr ''A'', entradas = 2, b_lucro = Fin (1 / 2), stake_total = Fin 0\<rparr>),
      (jstr ''B'', \<lparr>bname = jstr ''B'', entradas = 1,
                    b_lucro = Fin (3602879701896397 / 36028797018963968), stake_total = Fin 0\<rparr>)]"
proof -
  have ne: "jstr ''A'' \<noteq> []" "jstr ''B'' \<noteq> []" "jstr ''A'' \<noteq> jstr ''B''" "jstr ''B'' \<noteq> jstr ''A''"
    by (simp_all add: jstr_def)
  show ?thesis
    by (simp add: casaMap_def floatExample_def betOf_def addToBucket_upsert plain_AB ne upsert_def
        hasOwn_def updateOwn_def emptyBucket_def bumpBucket_def round64_sums)
qed

lemma not_index_AB: "\<not> isArrayIndex (jstr ''A'')" "\<not> isArrayIndex (jstr ''B'')"
  by (simp_all add: isArrayIndex_def jstr_def isDigit_def)

text \<open>
  C6 as stated fails in the double arithmetic of the program. Three records with casa A,
  B, A and lucro 0.1, 0.1, 0.4: the groups hold 0.5 and 0.1, which add to 0.6, and the
  lucro of the three records adds to 0.6000000000000001. The exact sums of the same
  doubles differ too, since the addition inside group A has rounded.
\<close>

theorem porCasa_sum_counterexample:
  "sumNums round64 (map b_lucro (porCasa (buildStatsFromData round64 floatExample []))) =
     Fin (5404319552844595 / 9007199254740992) \<and>
   sumNums round64 (map lucro (filter (\<lambda>d. casa d \<noteq> []) floatExample)) =
     Fin (1351079888211149 / 2251799813685248) \<and>
   \<not> jeq (Fin (5404319552844595 / 9007199254740992)) (Fin (1351079888211149 / 2251799813685248)) \<and>
   sumNums Fin (map b_lucro (porCasa (buildStatsFromData round64 floatExample []))) =
     Fin (21617278211378381 / 36028797018963968) \<and>
   sumNums Fin (map lucro (filter (\<lambda>d. casa d \<noteq> []) floatExample)) =
     Fin (10808639105689191 / 18014398509481984) \<and>
   \<not> jeq (Fin (21617278211378381 / 36028797018963968)) (Fin (10808639105689191 / 18014398509481984))"
proof -
  have a: "sumNums round64 (map b_lucro (porCasa (buildStatsFromData round64 floatExample []))) =
     Fin (5404319552844595 / 9007199254740992)"
    by (simp add: buildStatsFromData_def casaMap_floatExample objectValues_def ownPropertyOrder_def
        not_index_AB withYield_def sumNums_def round64_sums)
  have a': "sumNums Fin (map b_lucro (porCasa (buildStatsFromData round64 floatExample []))) =
     Fin (21617278211378381 / 36028797018963968)"
    by (simp add: buildStatsFromData_def casaMap_floatExample objectValues_def ownPropertyOrder_def
        not_index_AB withYield_def sumNums_def)
  have ne: "jstr ''A'' \<noteq> []" "jstr ''B'' \<noteq> []"
    by (simp_all add: jstr_def)
  have b: "sumNums round64 (map lucro (filter (\<lambda>d. casa d \<noteq> []) floatExample)) =
     Fin (1351079888211149 / 2251799813685248)"
    by (simp add: floatExample_def betOf_def ne sumNums_def round64_sums)
  have b': "sumNums Fin (map lucro (filter (\<lambda>d. casa d \<noteq> []) floatExample)) =
     Fin (10808639105689191 / 18014398509481984)"
    by (simp add: floatExample_def betOf_def ne sumNums_def)
  show ?thesis using a b a' b' by (simp add: jeq_def)
qed

text \<open>
  C6, amended. In the double arithmetic of the program, for records whose casa is no name
  of a property of \<open>Object.prototype\<close> and whose lucro values are multiples of \<open>2 ^ - k\<close>
  with magnitudes that add up to less than \<open>2 ^ (53 - k)\<close> (so that no addition rounds):
  the sum of the lucro fields over the porCasa groups equals the sum of lucro over exactly
  the records whose casa is not empty. The records with an empty casa are left out of
  porCasa only: the overview total (for any data) is the sum over all records.
\<close>

theorem porCasa_sum_dyadic:
  assumes "list_all (\<lambda>d. plainKey (casa d)) data" "dyadicData k lucro data"
  shows "jeq (sumNums round64 (map b_lucro (porCasa (buildStatsFromData round64 data grupos))))
             (sumNums round64 (map lucro (filter (\<lambda>d. casa d \<noteq> []) data))) \<and>
         totalLucro (overview (buildStatsFromData rnd data grupos)) = sumNums rnd (map lucro data)"
proof -
  let ?xs = "filter (\<lambda>d. casa d \<noteq> []) data"
  have ex: "dyadicData k lucro ?xs" by (rule dyadicData_filter [OF assms(2)])
  have plain: "filter (\<lambda>d. casa d \<noteq> [] \<and> plainKey (casa d)) data = ?xs"
    using assms(1) by (auto simp: list_all_iff intro: filter_cong)
  have lhs: "sumNums round64 (map b_lucro (porCasa (buildStatsFromData round64 data grupos))) =
             Fin (\<Sum>d\<leftarrow>?xs. realOf (lucro d))"
    by (simp add: buildStatsFromData_def casaMap_bucketFold sum_bucketFold [OF ex] plain)
  have rhs: "sumNums round64 (map lucro ?xs) = Fin (\<Sum>d\<leftarrow>?xs. realOf (lucro d))"
    using sum_exact [OF ex] by (simp add: sumNums_def foldl_map)
  show ?thesis
    unfolding jeq_def lhs rhs
    by (simp add: buildStatsFromData_def buildOverview_def sumLucro_sumNums)
qed

lemma exactExample_lucro: "dyadicData 2 lucro exactExample"
  by (simp add: dyadicData_def exactExample_def betOf_def dyadic_def realOf_def)

lemma exactExample_stake: "dyadicData 2 stake exactExample"
  by (simp add: dyadicData_def exactExample_def betOf_def dyadic_def realOf_def)

lemma exactExample_plain: "list_all (\<lambda>d. plainKey (casa d)) exactExample"
  by (simp add: exactExample_def betOf_def plain_AB)
     (simp add: plainKey_def objectPrototypeKeys_def jstr_def)

theorem porCasa_sum_dyadic_witness:
  "list_all (\<lambda>d. plainKey (casa d)) exactExample \<and>
   dyadicData 2 lucro exactExample \<and>
   (jeq (sumNums round64 (map b_lucro (porCasa (buildStatsFromData round64 exactExample []))))
        (sumNums round64 (map lucro (filter (\<lambda>d. casa d \<noteq> []) exactExample))) \<and>
    totalLucro (overview (buildStatsFromData round64 exactExample [])) =
      sumNums round64 (map lucro exactExample))"
  by (intro conjI [OF exactExample_plain] conjI [OF exactExample_lucro]
      porCasa_sum_dyadic [OF exactExample_plain exactExample_lucro])

section \<open>Order of the records\<close>

lemma mset_firstOcc:
  assumes "mset xs = mset ys"
  shows "mset (firstOcc (map key xs)) = mset (firstOcc (map key ys))"
proof -
  have "set (map key xs) = set (map key ys)"
    using assms by (metis mset_map set_mset_mset)
  then show ?thesis
    by (simp add: set_eq_iff_mset_eq_distinct [symmetric])
qed

lemma groupFold_perm:
  assumes "mset xs = mset ys"
    and "\<And>k. k \<in> key ` set xs \<Longrightarrow>
           h (valueAt key init step xs k) = h (valueAt key init step ys k)"
  shows "mset (map (\<lambda>p. (fst p, h (snd p))) (groupFold key init step xs)) =
         mset (map (\<lambda>p. (fst p, h (snd p))) (groupFold key init step ys))"
proof -
  let ?K = "firstOcc (map key xs)" and ?K' = "firstOcc (map key ys)"
  have "mset (map (\<lambda>p. (fst p, h (snd p))) (groupFold key init step xs)) =
        image_mset (\<lambda>k. (k, h (valueAt key init step xs k))) (mset ?K)"
    by (simp add: groupFold_closed comp_def)
  also have "\<dots> = image_mset (\<lambda>k. (k, h (valueAt key init step ys k))) (mset ?K)"
    by (rule image_mset_cong) (simp add: assms(2))
  also have "mset ?K = mset ?K'"
    by (rule mset_firstOcc [OF assms(1)])
  also have "image_mset (\<lambda>k. (k, h (valueAt key init step ys k))) (mset ?K') =
             mset (map (\<lambda>p. (fst p, h (snd p))) (groupFold key init step ys))"
    by (simp add: groupFold_closed comp_def)
  finally show ?thesis .
qed

lemma filter_key_single:
  "distinct (map f zs) \<Longrightarrow> k \<in> set zs \<Longrightarrow> filter (\<lambda>x. f k = f x) zs = [k]"
proof (induction zs)
  case Nil
  then show ?case by simp
next
  case (Cons z zs)
  show ?case
  proof (cases "k = z")
    case True
    have "filter (\<lambda>x. f z = f x) zs = []"
      using Cons.prems(1) by (auto simp: filter_empty_conv image_iff)
    then show ?thesis using True by simp
  next
    case False
    then have "k \<in> set zs" using Cons.prems(2) by simp
    moreover have "f k \<noteq> f z" using Cons.prems(1) calculation by (auto simp: image_iff)
    ultimately show ?thesis using Cons by simp
  qed
qed

lemma sort_key_perm_distinct:
  fixes f :: "'a \<Rightarrow> 'k::linorder"
  assumes "mset xs = mset ys" "distinct (map f xs)"
  shows "sort_key f xs = sort_key f ys"
proof (rule properties_for_sort_key)
  show "mset (sort_key f ys) = mset xs" using assms(1) by simp
  show "sorted (map f (sort_key f ys))" by simp
  fix k assume k: "k \<in> set (sort_key f ys)"
  have dys: "distinct (map f (sort_key f ys))"
    using assms by (metis distinct_map distinct_sort mset_eq_imp_distinct_iff mset_map mset_sort)
  have kx: "k \<in> set xs" using k assms(1) by (metis mset_eq_setD set_sort)
  show "filter (\<lambda>x. f k = f x) (sort_key f ys) = filter (\<lambda>x. f k = f x) xs"
    by (simp only: filter_key_single [OF dys k] filter_key_single [OF assms(2) kx])
qed

section \<open>The value of a group\<close>

lemma bucket_fold:
  assumes "dyadicData k l ys" "dyadicData k s ys"
  shows "foldl (\<lambda>b x. bumpBucket round64 (l x) (s x) b) (emptyBucket n) ys =
         \<lparr>bname = n, entradas = length ys,
          b_lucro = Fin (\<Sum>x\<leftarrow>ys. realOf (l x)),
          stake_total = Fin (\<Sum>x\<leftarrow>ys. realOf (s x))\<rparr>"
  using assms
proof (induction ys rule: rev_induct)
  case Nil
  show ?case by (simp add: emptyBucket_def)
next
  case (snoc y ys)
  have IH: "foldl (\<lambda>b x. bumpBucket round64 (l x) (s x) b) (emptyBucket n) ys =
         \<lparr>bname = n, entradas = length ys,
          b_lucro = Fin (\<Sum>x\<leftarrow>ys. realOf (l x)),
          stake_total = Fin (\<Sum>x\<leftarrow>ys. realOf (s x))\<rparr>"
    by (rule snoc.IH [OF dyadicData_prefix [OF snoc.prems(1)] dyadicData_prefix [OF snoc.prems(2)]])
  have "foldl (\<lambda>b x. bumpBucket round64 (l x) (s x) b) (emptyBucket n) (ys @ [y]) =
        bumpBucket round64 (l y) (s y)
          (foldl (\<lambda>b x. bumpBucket round64 (l x) (s x) b) (emptyBucket n) ys)"
    by simp
  also have "\<dots> = bumpBucket round64 (l y) (s y)
         \<lparr>bname = n, entradas = length ys,
          b_lucro = Fin (\<Sum>x\<leftarrow>ys. realOf (l x)),
          stake_total = Fin (\<Sum>x\<leftarrow>ys. realOf (s x))\<rparr>"
    by (simp only: IH)
  also have "\<dots> = \<lparr>bname = n, entradas = length (ys @ [y]),
          b_lucro = Fin (\<Sum>x\<leftarrow>ys @ [y]. realOf (l x)),
          stake_total = Fin (\<Sum>x\<leftarrow>ys @ [y]. realOf (s x))\<rparr>"
    using add_exact [OF snoc.prems(1)] add_exact [OF snoc.prems(2)]
    by (simp add: bumpBucket_def)
  finally show ?case .
qed

lemma hd_filter_key:
  "k \<in> key ` set xs \<Longrightarrow> key (hd (filter (\<lambda>x. key x = k) xs)) = k"
proof -
  assume "k \<in> key ` set xs"
  then have "filter (\<lambda>x. key x = k) xs \<noteq> []"
    by (auto simp: filter_empty_conv image_iff)
  then have "hd (filter (\<lambda>x. key x = k) xs) \<in> set (filter (\<lambda>x. key x = k) xs)"
    by (rule hd_in_set)
  then show ?thesis by simp
qed

lemma bucket_valueAt:
  assumes "dyadicData k l xs" "dyadicData k s xs" "k' \<in> key ` set xs"
  shows "valueAt key (\<lambda>x. emptyBucket (key x)) (\<lambda>x. bumpBucket round64 (l x) (s x)) xs k' =
         \<lparr>bname = k', entradas = length (filter (\<lambda>x. key x = k') xs),
          b_lucro = Fin (\<Sum>x\<leftarrow>filter (\<lambda>x. key x = k') xs. realOf (l x)),
          stake_total = Fin (\<Sum>x\<leftarrow>filter (\<lambda>x. key x = k') xs. realOf (s x))\<rparr>"
  by (simp add: valueAt_def hd_filter_key [OF assms(3)]
      bucket_fold [OF dyadicData_filter [OF assms(1)] dyadicData_filter [OF assms(2)]])

lemma mset_filter_cong: "mset xs = mset ys \<Longrightarrow> mset (filter P xs) = mset (filter P ys)"
  by (metis mset_filter)

lemma length_mset_cong: "mset xs = mset ys \<Longrightarrow> length xs = length ys"
  by (metis size_mset)

lemma bucketFold_perm:
  assumes "mset xs = mset ys" "dyadicData k l xs" "dyadicData k s xs"
  shows "mset (objectValues round64 (bucketFold round64 key l s xs)) =
         mset (objectValues round64 (bucketFold round64 key l s ys))"
proof -
  let ?xs = "filter (\<lambda>x. plainKey (key x)) xs" and ?ys = "filter (\<lambda>x. plainKey (key x)) ys"
  have m: "mset ?xs = mset ?ys" by (rule mset_filter_cong [OF assms(1)])
  have lx: "dyadicData k l ?xs" and sx: "dyadicData k s ?xs"
    by (rule dyadicData_filter [OF assms(2)], rule dyadicData_filter [OF assms(3)])
  have ly: "dyadicData k l ?ys" and sy: "dyadicData k s ?ys"
    by (rule dyadicData_mset [OF m [symmetric] lx], rule dyadicData_mset [OF m [symmetric] sx])
  have val: "valueAt key (\<lambda>x. emptyBucket (key x)) (\<lambda>x. bumpBucket round64 (l x) (s x)) ?xs k' =
             valueAt key (\<lambda>x. emptyBucket (key x)) (\<lambda>x. bumpBucket round64 (l x) (s x)) ?ys k'"
    if k: "k' \<in> key ` set ?xs" for k'
  proof -
    have "set ?xs = set ?ys" using m by (rule mset_eq_setD)
    then have k': "k' \<in> key ` set ?ys" using k by (simp only:)
    have mf: "mset (filter (\<lambda>x. key x = k') ?xs) = mset (filter (\<lambda>x. key x = k') ?ys)"
      by (rule mset_filter_cong [OF m])
    show ?thesis
      by (simp only: bucket_valueAt [OF lx sx k] bucket_valueAt [OF ly sy k']
          length_mset_cong [OF mf] sum_list_mset_cong [OF mf])
  qed
  have "mset (map (\<lambda>p. (fst p, snd p)) (bucketFold round64 key l s xs)) =
        mset (map (\<lambda>p. (fst p, snd p)) (bucketFold round64 key l s ys))"
    unfolding bucketFold_groupFold
    by (rule groupFold_perm [OF m]) (rule val)
  then have "mset (bucketFold round64 key l s xs) = mset (bucketFold round64 key l s ys)"
    by simp
  then show ?thesis
    by (simp add: objectValues_def mset_ownPropertyOrder)
qed

section \<open>Entries\<close>

lemma bumpEntry_fun:
  "bumpEntry rnd d =
     (\<lambda>g. g\<lparr>lucroTotal := jadd rnd (lucroTotal g) (lucro d),
             stakeTotal := jadd rnd (stakeTotal g) (stake d)\<rparr>)"
  by (simp add: fun_eq_iff bumpEntry_def)

lemma groupEntries_groupFold:
  "groupEntries rnd U data = groupFold (groupKey U) initEntry (bumpEntry rnd) data"
  by (simp add: groupEntries_def groupFold_def addToGrupos_def upsert_def initEntry_def
      bumpEntry_fun Let_def)

lemma entry_fold:
  assumes "dyadicData k lucro ys" "dyadicData k stake ys"
  shows "entryProj (foldl (\<lambda>g d. bumpEntry round64 d g) (initEntry d0) ys) =
         (operador d0, Fin (\<Sum>d\<leftarrow>ys. realOf (lucro d)), Fin (\<Sum>d\<leftarrow>ys. realOf (stake d)))"
  using assms
proof (induction ys rule: rev_induct)
  case Nil
  show ?case by (simp add: entryProj_def initEntry_def)
next
  case (snoc y ys)
  define g where "g = foldl (\<lambda>g d. bumpEntry round64 d g) (initEntry d0) ys"
  have "entryProj g =
        (operador d0, Fin (\<Sum>d\<leftarrow>ys. realOf (lucro d)), Fin (\<Sum>d\<leftarrow>ys. realOf (stake d)))"
    unfolding g_def
    by (rule snoc.IH [OF dyadicData_prefix [OF snoc.prems(1)] dyadicData_prefix [OF snoc.prems(2)]])
  then have g: "g_operador g = operador d0" "lucroTotal g = Fin (\<Sum>d\<leftarrow>ys. realOf (lucro d))"
    "stakeTotal g = Fin (\<Sum>d\<leftarrow>ys. realOf (stake d))"
    by (simp_all add: entryProj_def)
  have "foldl (\<lambda>g d. bumpEntry round64 d g) (initEntry d0) (ys @ [y]) = bumpEntry round64 y g"
    by (simp add: g_def)
  moreover have "entryProj (bumpEntry round64 y g) =
        (operador d0, Fin (\<Sum>d\<leftarrow>ys @ [y]. realOf (lucro d)),
         Fin (\<Sum>d\<leftarrow>ys @ [y]. realOf (stake d)))"
    using add_exact [OF snoc.prems(1)] add_exact [OF snoc.prems(2)]
    by (simp add: entryProj_def bumpEntry_def g)
  ultimately show ?case by simp
qed

lemma entry_valueAt:
  assumes "dyadicData k lucro data" "dyadicData k stake data"
  shows "entryProj (valueAt (groupKey U) initEntry (bumpEntry round64) data k') =
         (operador (hd (filter (\<lambda>d. groupKey U d = k') data)),
          Fin (\<Sum>d\<leftarrow>filter (\<lambda>d. groupKey U d = k') data. realOf (lucro d)),
          Fin (\<Sum>d\<leftarrow>filter (\<lambda>d. groupKey U d = k') data. realOf (stake d)))"
  unfolding valueAt_def
  by (rule entry_fold [OF dyadicData_filter [OF assms(1)] dyadicData_filter [OF assms(2)]])

lemma entries_perm:
  assumes "mset data' = mset data"
    and "dyadicData k lucro data" "dyadicData k stake data"
    and "sameKeySameOperador U data"
  shows "mset (map entryProj (map snd (groupEntries round64 U data'))) =
         mset (map entryProj (map snd (groupEntries round64 U data)))"
proof -
  have l': "dyadicData k lucro data'" and s': "dyadicData k stake data'"
    by (rule dyadicData_mset [OF assms(1,2)], rule dyadicData_mset [OF assms(1,3)])
  have sets: "set data' = set data" using assms(1) by (rule mset_eq_setD)
  have val: "entryProj (valueAt (groupKey U) initEntry (bumpEntry round64) data' k') =
             entryProj (valueAt (groupKey U) initEntry (bumpEntry round64) data k')"
    if k: "k' \<in> groupKey U ` set data'" for k'
  proof -
    let ?ys' = "filter (\<lambda>d. groupKey U d = k') data'" and ?ys = "filter (\<lambda>d. groupKey U d = k') data"
    have mf: "mset ?ys' = mset ?ys" by (rule mset_filter_cong [OF assms(1)])
    have ne': "?ys' \<noteq> []" using k by (auto simp: filter_empty_conv image_iff)
    then have ne: "?ys \<noteq> []" using mf by (metis mset_zero_iff)
    have h': "hd ?ys' \<in> set ?ys'" using ne' by (rule hd_in_set)
    have h: "hd ?ys \<in> set ?ys" using ne by (rule hd_in_set)
    have "operador (hd ?ys') = operador (hd ?ys)"
      using assms(4) h h' sets by (auto simp: sameKeySameOperador_def list_all_iff)
    then show ?thesis
      by (simp only: entry_valueAt [OF l' s'] entry_valueAt [OF assms(2,3)]
          sum_list_mset_cong [OF mf])
  qed
  have "mset (map (\<lambda>p. (fst p, entryProj (snd p))) (groupEntries round64 U data')) =
        mset (map (\<lambda>p. (fst p, entryProj (snd p))) (groupEntries round64 U data))"
    unfolding groupEntries_groupFold
    by (rule groupFold_perm [OF assms(1)]) (rule val)
  then have "image_mset snd (mset (map (\<lambda>p. (fst p, entryProj (snd p))) (groupEntries round64 U data'))) =
             image_mset snd (mset (map (\<lambda>p. (fst p, entryProj (snd p))) (groupEntries round64 U data)))"
    by simp
  then show ?thesis by (simp add: image_mset.compositionality comp_def)
qed

lemma entryProj_exact:
  assumes "dyadicData k lucro data" "dyadicData k stake data"
  shows "dyadicData k (\<lambda>p. fst (snd p)) (map entryProj (map snd (groupEntries round64 U data)))"
    and "dyadicData k (\<lambda>p. snd (snd p)) (map entryProj (map snd (groupEntries round64 U data)))"
proof -
  let ?K = "firstOcc (map (groupKey U) data)"
  let ?h = "\<lambda>k'. entryProj (valueAt (groupKey U) initEntry (bumpEntry round64) data k')"
  have eq: "map entryProj (map snd (groupEntries round64 U data)) = map ?h ?K"
    by (simp add: groupEntries_groupFold groupFold_closed comp_def)
  show "dyadicData k (\<lambda>p. fst (snd p)) (map entryProj (map snd (groupEntries round64 U data)))"
    unfolding eq
    by (rule groups_exact [OF assms(1), where key = "groupKey U"])
       (simp_all add: entry_valueAt [OF assms])
  show "dyadicData k (\<lambda>p. snd (snd p)) (map entryProj (map snd (groupEntries round64 U data)))"
    unfolding eq
    by (rule groups_exact [OF assms(2), where key = "groupKey U"])
       (simp_all add: entry_valueAt [OF assms])
qed

section \<open>Days\<close>

lemma day_step:
  "(case dataAposta d of None \<Rightarrow> obj
    | Some k \<Rightarrow> if k = [] then obj else addToDay rnd k (lucro d) obj) =
   (if dateKey d \<noteq> [] \<and> dateKey d \<noteq> jstr ''__proto__''
    then upsert (dateKey d) (dayInit (dateKey d)) (dayAdd rnd (lucro d)) obj else obj)"
  by (cases "dataAposta d")
     (simp_all add: addToDay_def upsert_def dayInit_def plainKey_def dateKey_def)

lemma lucroPorDiaMap_groupFold:
  "lucroPorDiaMap rnd data =
     groupFold dateKey (\<lambda>d. dayInit (dateKey d)) (\<lambda>d. dayAdd rnd (lucro d))
       (filter (\<lambda>d. dateKey d \<noteq> [] \<and> dateKey d \<noteq> jstr ''__proto__'') data)"
  by (simp only: lucroPorDiaMap_def day_step foldl_keep groupFold_def)

lemma day_fold_num:
  "dyadicData k lucro ys \<Longrightarrow>
   foldl (\<lambda>v d. dayAdd round64 (lucro d) v) (DayNum (Fin 0)) ys =
     DayNum (Fin (\<Sum>d\<leftarrow>ys. realOf (lucro d)))"
proof (induction ys rule: rev_induct)
  case Nil
  show ?case by simp
next
  case (snoc y ys)
  have IH: "foldl (\<lambda>v d. dayAdd round64 (lucro d) v) (DayNum (Fin 0)) ys =
     DayNum (Fin (\<Sum>d\<leftarrow>ys. realOf (lucro d)))"
    by (rule snoc.IH [OF dyadicData_prefix [OF snoc.prems]])
  have "foldl (\<lambda>v d. dayAdd round64 (lucro d) v) (DayNum (Fin 0)) (ys @ [y]) =
        dayAdd round64 (lucro y) (foldl (\<lambda>v d. dayAdd round64 (lucro d) v) (DayNum (Fin 0)) ys)"
    by simp
  also have "\<dots> = dayAdd round64 (lucro y) (DayNum (Fin (\<Sum>d\<leftarrow>ys. realOf (lucro d))))"
    by (simp only: IH)
  also have "\<dots> = DayNum (Fin (\<Sum>d\<leftarrow>ys @ [y]. realOf (lucro d)))"
    using add_exact [OF snoc.prems] by (auto simp: dayAdd_def)
  finally show ?case .
qed

lemma day_fold_text: "foldl (\<lambda>v d. dayAdd rnd (lucro d) v) DayText ys = DayText"
  by (induction ys) (simp_all add: dayAdd_def)

lemma day_valueAt:
  assumes "dyadicData k lucro xs" "k' \<in> dateKey ` set xs"
  shows "valueAt dateKey (\<lambda>d. dayInit (dateKey d)) (\<lambda>d. dayAdd round64 (lucro d)) xs k' =
         (if plainKey k' then DayNum (Fin (\<Sum>d\<leftarrow>filter (\<lambda>d. dateKey d = k') xs. realOf (lucro d)))
          else DayText)"
  by (simp add: valueAt_def hd_filter_key [OF assms(2)] dayInit_def
      day_fold_num [OF dyadicData_filter [OF assms(1)]] day_fold_text)

lemma lucroPorDia_perm:
  assumes "mset data' = mset data" "dyadicData k lucro data"
  shows "buildLucroPorDia round64 data' = buildLucroPorDia round64 data"
proof -
  let ?P = "\<lambda>d. dateKey d \<noteq> [] \<and> dateKey d \<noteq> jstr ''__proto__''"
  let ?xs' = "filter ?P data'" and ?xs = "filter ?P data"
  have m: "mset ?xs' = mset ?xs" by (rule mset_filter_cong [OF assms(1)])
  have fx: "dyadicData k lucro ?xs" by (rule dyadicData_filter [OF assms(2)])
  have fx': "dyadicData k lucro ?xs'" by (rule dyadicData_mset [OF m fx])
  have val: "valueAt dateKey (\<lambda>d. dayInit (dateKey d)) (\<lambda>d. dayAdd round64 (lucro d)) ?xs' k' =
             valueAt dateKey (\<lambda>d. dayInit (dateKey d)) (\<lambda>d. dayAdd round64 (lucro d)) ?xs k'"
    if k: "k' \<in> dateKey ` set ?xs'" for k'
  proof -
    have "set ?xs' = set ?xs" using m by (rule mset_eq_setD)
    then have k': "k' \<in> dateKey ` set ?xs" using k by (simp only:)
    have mf: "mset (filter (\<lambda>d. dateKey d = k') ?xs') = mset (filter (\<lambda>d. dateKey d = k') ?xs)"
      by (rule mset_filter_cong [OF m])
    show ?thesis
      by (simp only: day_valueAt [OF fx' k] day_valueAt [OF fx k'] sum_list_mset_cong [OF mf])
  qed
  have "mset (map (\<lambda>p. (fst p, snd p)) (lucroPorDiaMap round64 data')) =
        mset (map (\<lambda>p. (fst p, snd p)) (lucroPorDiaMap round64 data))"
    unfolding lucroPorDiaMap_groupFold
    by (rule groupFold_perm [OF m]) (rule val)
  then have mm: "mset (ownPropertyOrder (lucroPorDiaMap round64 data')) =
                 mset (ownPropertyOrder (lucroPorDiaMap round64 data))"
    by (simp add: mset_ownPropertyOrder)
  have dm: "distinct (map fst (lucroPorDiaMap round64 data'))"
    by (simp add: lucroPorDiaMap_groupFold groupFold_closed comp_def)
  have me: "mset (map fst (ownPropertyOrder (lucroPorDiaMap round64 data'))) =
            mset (map fst (lucroPorDiaMap round64 data'))"
    by (simp add: mset_ownPropertyOrder)
  have d: "distinct (map fst (ownPropertyOrder (lucroPorDiaMap round64 data')))"
    using dm by (rule mset_eq_imp_distinct_iff [OF me, THEN iffD2])
  show ?thesis
    unfolding buildLucroPorDia_def by (rule sort_key_perm_distinct [OF mm d])
qed

section \<open>Overview\<close>

lemma sumStake_sumNums: "sumStake rnd data = sumNums rnd (map stake data)"
  by (simp add: sumStake_def sumNums_def foldl_map)

lemma sum_perm:
  assumes "mset data' = mset data" "dyadicData k f data"
  shows "sumNums round64 (map f data') = sumNums round64 (map f data)"
proof -
  have f': "dyadicData k f data'" by (rule dyadicData_mset [OF assms])
  show ?thesis
    using sum_exact [OF assms(2)] sum_exact [OF f'] sum_list_mset_cong [OF assms(1)]
    by (simp add: sumNums_def foldl_map)
qed

lemma count_proj:
  assumes "mset (map h gs') = mset (map h gs)"
  shows "length (filter (\<lambda>g. P (h g)) gs') = length (filter (\<lambda>g. P (h g)) gs)"
proof -
  have "length (filter (\<lambda>g. P (h g)) gs) = length (filter P (map h gs))" for gs
    by (simp add: filter_map comp_def)
  then show ?thesis
    using mset_filter_cong [OF assms, of P] by (metis size_mset)
qed

lemma overview_perm:
  assumes "mset data' = mset data"
    and "dyadicData k lucro data" "dyadicData k stake data"
    and "mset (map entryProj gs') = mset (map entryProj gs)"
  shows "buildOverview round64 data' gs' = buildOverview round64 data gs"
proof -
  have l: "sumLucro round64 data' = sumLucro round64 data"
    unfolding sumLucro_sumNums by (rule sum_perm [OF assms(1,2)])
  have s: "sumStake round64 data' = sumStake round64 data"
    unfolding sumStake_sumNums by (rule sum_perm [OF assms(1,3)])
  have n: "length gs' = length gs"
    using assms(4) by (metis length_map size_mset)
  have g: "greens round64 gs' = greens round64 gs"
    unfolding greens_def
    using count_proj [OF assms(4), of "\<lambda>p. jless (EPS round64) (fst (snd p))"]
    by (simp add: isGreen_def entryProj_def cong: filter_cong)
  have r: "reds round64 gs' = reds round64 gs"
    unfolding reds_def
    using count_proj [OF assms(4), of "\<lambda>p. jless (fst (snd p)) (jneg (EPS round64))"]
    by (simp add: isRed_def entryProj_def cong: filter_cong)
  show ?thesis
    by (simp add: buildOverview_def totalResolvidas_def l s n g r)
qed

lemma operadorMap_bucketFold:
  "operadorMap rnd gs =
     bucketFold rnd fst (\<lambda>p. fst (snd p)) (\<lambda>p. snd (snd p)) (map entryProj gs)"
  by (simp add: operadorMap_def bucketFold_def foldl_map entryProj_def)

lemma esporteMap_bucketFold:
  "esporteMap rnd data = bucketFold rnd esporte lucro stake (filter (\<lambda>d. esporte d \<noteq> []) data)"
  by (simp add: esporteMap_def bucketFold_def foldl_skip)

lemma same_operador_single:
  "list_all (\<lambda>d. operador d = op) data \<Longrightarrow> sameKeySameOperador U data"
  by (simp add: sameKeySameOperador_def list_all_iff)

lemma overviewRows_operador:
  "list_all (\<lambda>d. operador d = operadorOf sh) (overviewRows rnd sh q rows)"
  by (induction rows) (simp_all add: makeRecord_def split: option.splits)

lemma overview_sameKeySameOperador:
  "sameKeySameOperador U (overviewRows rnd sh q rows)"
  by (rule same_operador_single [OF overviewRows_operador])

lemma suffix_after_bar:
  fixes a b p p' :: jsstring
  assumes "124 \<notin> set a" "124 \<notin> set b" "p @ [124] @ a = p' @ [124] @ b"
  shows "a = b"
proof -
  have "rev (p @ [124] @ a) = rev (p' @ [124] @ b)" using assms(3) by simp
  then have "takeWhile (\<lambda>c. c \<noteq> 124) (rev a @ 124 # rev p) =
             takeWhile (\<lambda>c. c \<noteq> 124) (rev b @ 124 # rev p')"
    by simp
  moreover have "takeWhile (\<lambda>c. c \<noteq> 124) (rev a @ 124 # rev p) = rev a"
    using assms(1) by (subst takeWhile_append2) auto
  moreover have "takeWhile (\<lambda>c. c \<noteq> 124) (rev b @ 124 # rev p') = rev b"
    using assms(2) by (subst takeWhile_append2) auto
  ultimately show ?thesis by simp
qed

lemma no_bar_sameKeySameOperador:
  assumes "list_all (\<lambda>d. 124 \<notin> set (operador d)) data"
  shows "sameKeySameOperador U data"
proof -
  have "operador d = operador d'"
    if "d \<in> set data" "d' \<in> set data" "groupKey U d = groupKey U d'" for d d'
  proof -
    have a: "124 \<notin> set (operador d)" "124 \<notin> set (operador d')"
      using assms that(1,2) by (simp_all add: list_all_iff)
    have "((case dataAposta d of None \<Rightarrow> [] | Some s \<Rightarrow> s) @ [124] @
            trim (toLowerCase U (evento d))) @ [124] @ operador d =
          ((case dataAposta d' of None \<Rightarrow> [] | Some s \<Rightarrow> s) @ [124] @
            trim (toLowerCase U (evento d'))) @ [124] @ operador d'"
      using that(3) by (simp add: groupKey_def)
    then show ?thesis by (rule suffix_after_bar [OF a])
  qed
  then show ?thesis unfolding sameKeySameOperador_def list_all_iff by blast
qed

section \<open>The statistics and the order of the records\<close>

lemma casa_names:
  "map bname (objectValues rnd (casaMap rnd orderExample)) = [jstr ''A'', jstr ''B''] \<and>
   map bname (objectValues rnd (casaMap rnd (rev orderExample))) = [jstr ''B'', jstr ''A'']"
proof -
  have ne: "jstr ''A'' \<noteq> []" "jstr ''B'' \<noteq> []" "jstr ''A'' \<noteq> jstr ''B''" "jstr ''B'' \<noteq> jstr ''A''"
    by (simp_all add: jstr_def)
  show ?thesis
    by (simp add: casaMap_def orderExample_def betOf_def addToBucket_upsert plain_AB ne upsert_def
        hasOwn_def updateOwn_def emptyBucket_def bumpBucket_def objectValues_def
        ownPropertyOrder_def not_index_AB withYield_def)
qed

lemma total_float:
  "totalLucro (overview (statsOfRecords round64 asciiUnicode floatExample)) =
     Fin (1351079888211149 / 2251799813685248) \<and>
   totalLucro (overview (statsOfRecords round64 asciiUnicode floatExampleSwapped)) =
     Fin (5404319552844595 / 9007199254740992)"
  by (simp add: statsOfRecords_def buildStatsFromData_def buildOverview_def sumLucro_def
      floatExampleSwapped_def floatExample_def betOf_def round64_sums)

lemma clash_keys:
  "groupKey asciiUnicode clashFirst = jstr ''2025-01-01|x|y|z''"
  "groupKey asciiUnicode clashSecond = jstr ''2025-01-01|x|y|z''"
  by (simp_all add: clashFirst_def clashSecond_def groupKey_def asciiUnicode_def asciiLower_def
      jstr_def trim_def isWhiteSpace_def)

lemma plain_z: "plainKey (jstr ''z'')" "plainKey (jstr ''y|z'')"
  by (simp_all add: plainKey_def objectPrototypeKeys_def jstr_def)

lemma not_index_z: "\<not> isArrayIndex (jstr ''z'')" "\<not> isArrayIndex (jstr ''y|z'')"
  by (simp_all add: isArrayIndex_def jstr_def isDigit_def)

lemma clash_names:
  "map bname (porOperador (statsOfRecords round64 asciiUnicode clashExample)) = [jstr ''z''] \<and>
   map bname (porOperador (statsOfRecords round64 asciiUnicode (rev clashExample))) =
     [jstr ''y|z'']"
proof -
  have o: "operador clashFirst = jstr ''z''" "operador clashSecond = jstr ''y|z''"
    by (simp_all add: clashFirst_def clashSecond_def)
  have g: "map g_operador (map snd (groupEntries round64 asciiUnicode clashExample)) = [jstr ''z'']"
    by (simp add: clashExample_def groupEntries_def addToGrupos_def clash_keys o hasOwn_def
        updateOwn_def Let_def)
  have g': "map g_operador (map snd (groupEntries round64 asciiUnicode (rev clashExample))) =
            [jstr ''y|z'']"
    by (simp add: clashExample_def groupEntries_def addToGrupos_def clash_keys o hasOwn_def
        updateOwn_def Let_def)
  have one: "map bname (objectValues round64 (operadorMap round64 gs)) = [op]"
    if h: "map g_operador gs = [op]" and pk: "plainKey op" and ni: "\<not> isArrayIndex op"
    for gs op
  proof -
    obtain e where gs: "gs = [e]" "g_operador e = op"
      using h by (cases gs) auto
    show ?thesis
      by (simp add: gs operadorMap_def addToBucket_upsert pk ni upsert_def hasOwn_def
          updateOwn_def emptyBucket_def bumpBucket_def objectValues_def ownPropertyOrder_def
          withYield_def)
  qed
  show ?thesis
    by (simp add: statsOfRecords_def buildStatsFromData_def one [OF g plain_z(1) not_index_z(1)]
        one [OF g' plain_z(2) not_index_z(2)])
qed

text \<open>
  \<open>Object.values\<close> lists the keys that are array indices first, in ascending order: the
  casas \<open>10\<close> and \<open>9\<close> are listed as \<open>9\<close>, \<open>10\<close> in whichever order the records come.
\<close>

lemma index_names:
  "map bname (objectValues rnd (casaMap rnd indexExample)) = [jstr ''9'', jstr ''10''] \<and>
   map bname (objectValues rnd (casaMap rnd (rev indexExample))) = [jstr ''9'', jstr ''10'']"
proof -
  have ne: "jstr ''10'' \<noteq> []" "jstr ''9'' \<noteq> []" "jstr ''10'' \<noteq> jstr ''9''" "jstr ''9'' \<noteq> jstr ''10''"
    by (simp_all add: jstr_def)
  have p: "plainKey (jstr ''10'')" "plainKey (jstr ''9'')"
    by (simp_all add: plainKey_def objectPrototypeKeys_def jstr_def)
  have i: "isArrayIndex (jstr ''10'')" "isArrayIndex (jstr ''9'')"
    "digitsVal 10 (jstr ''10'') = 10" "digitsVal 10 (jstr ''9'') = 9"
    by (simp_all add: isArrayIndex_def jstr_def isDigit_def digitsVal_def)
  show ?thesis
    by (simp add: casaMap_def indexExample_def betOf_def addToBucket_upsert p ne upsert_def
        hasOwn_def updateOwn_def emptyBucket_def bumpBucket_def objectValues_def
        ownPropertyOrder_def i withYield_def)
qed

text \<open>
  C9 as stated fails, in three ways. The order of a breakdown list depends on the order
  in which its keys are created: two records of casas A and B give porCasa in the order
  A, B, and the same two records in the other order give B, A. The sums are computed in
  doubles, whose addition is not associative: the records of lucro 0.1, 0.1, 0.4 give the
  total lucro 0.6000000000000001, and in the order 0.1, 0.4, 0.1 they give 0.6. And the entry key is a
  text, the three parts joined by \<open>|\<close>: the records (evento \<open>x|y\<close>, operador \<open>z\<close>) and
  (evento \<open>x\<close>, operador \<open>y|z\<close>) of one date have the same key and make one entry, which
  has the operador of the record that comes first, so porOperador has the one group \<open>z\<close>
  in one order and the one group \<open>y|z\<close> in the other.
\<close>

theorem stats_order_counterexample:
  "mset (rev orderExample) = mset orderExample \<and>
   map bname (porCasa (statsOfRecords round64 asciiUnicode orderExample)) =
     [jstr ''A'', jstr ''B''] \<and>
   map bname (porCasa (statsOfRecords round64 asciiUnicode (rev orderExample))) =
     [jstr ''B'', jstr ''A''] \<and>
   statsOfRecords round64 asciiUnicode (rev orderExample) \<noteq>
     statsOfRecords round64 asciiUnicode orderExample \<and>
   mset floatExampleSwapped = mset floatExample \<and>
   totalLucro (overview (statsOfRecords round64 asciiUnicode floatExample)) =
     Fin (1351079888211149 / 2251799813685248) \<and>
   totalLucro (overview (statsOfRecords round64 asciiUnicode floatExampleSwapped)) =
     Fin (5404319552844595 / 9007199254740992) \<and>
   overview (statsOfRecords round64 asciiUnicode floatExampleSwapped) \<noteq>
     overview (statsOfRecords round64 asciiUnicode floatExample) \<and>
   mset (rev clashExample) = mset clashExample \<and>
   dyadicData 0 lucro clashExample \<and> dyadicData 0 stake clashExample \<and>
   groupKey asciiUnicode clashFirst = groupKey asciiUnicode clashSecond \<and>
   map bname (porOperador (statsOfRecords round64 asciiUnicode clashExample)) = [jstr ''z''] \<and>
   map bname (porOperador (statsOfRecords round64 asciiUnicode (rev clashExample))) =
     [jstr ''y|z''] \<and>
   mset (porOperador (statsOfRecords round64 asciiUnicode (rev clashExample))) \<noteq>
     mset (porOperador (statsOfRecords round64 asciiUnicode clashExample))"
proof -
  have a: "map bname (porCasa (statsOfRecords round64 asciiUnicode orderExample)) =
           [jstr ''A'', jstr ''B'']"
    using casa_names [of round64] by (simp add: statsOfRecords_def buildStatsFromData_def)
  have b: "map bname (porCasa (statsOfRecords round64 asciiUnicode (rev orderExample))) =
           [jstr ''B'', jstr ''A'']"
    using casa_names [of round64] by (simp add: statsOfRecords_def buildStatsFromData_def)
  have "[jstr ''B'', jstr ''A''] \<noteq> [jstr ''A'', jstr ''B'']"
    by (simp add: jstr_def)
  then have c: "statsOfRecords round64 asciiUnicode (rev orderExample) \<noteq>
                statsOfRecords round64 asciiUnicode orderExample"
    using a b by metis
  have d: "mset floatExampleSwapped = mset floatExample"
    by (simp add: floatExampleSwapped_def floatExample_def)
  have "Fin (5404319552844595 / 9007199254740992) \<noteq> Fin (1351079888211149 / 2251799813685248)"
    by simp
  then have e: "overview (statsOfRecords round64 asciiUnicode floatExampleSwapped) \<noteq>
                overview (statsOfRecords round64 asciiUnicode floatExample)"
    using total_float by metis
  have f: "dyadicData 0 lucro clashExample" "dyadicData 0 stake clashExample"
    by (simp_all add: dyadicData_def clashExample_def clashFirst_def clashSecond_def dyadic_def
        realOf_def)
  have g: "mset (porOperador (statsOfRecords round64 asciiUnicode (rev clashExample))) \<noteq>
           mset (porOperador (statsOfRecords round64 asciiUnicode clashExample))"
  proof
    assume "mset (porOperador (statsOfRecords round64 asciiUnicode (rev clashExample))) =
            mset (porOperador (statsOfRecords round64 asciiUnicode clashExample))"
    then have "mset (map bname (porOperador (statsOfRecords round64 asciiUnicode (rev clashExample)))) =
               mset (map bname (porOperador (statsOfRecords round64 asciiUnicode clashExample)))"
      by (metis mset_map)
    then have "mset [jstr ''y|z''] = mset [jstr ''z'']"
      unfolding clash_names [THEN conjunct1] clash_names [THEN conjunct2] .
    then show False by (simp add: jstr_def)
  qed
  show ?thesis
    using a b c d e f g total_float clash_names by (simp add: clash_keys)
qed

text \<open>
  C9, amended. In the double arithmetic of the program, for records whose lucro values, and
  whose stake values, are multiples of \<open>2 ^ - k\<close> with magnitudes that add up to less than
  \<open>2 ^ (53 - k)\<close> (so that no addition rounds), and where the records of one entry key have
  one operador: grouping a permutation of the records and computing the statistics gives
  the same overview and the same lucroPorDia list, and porOperador, porCasa and porEsporte
  lists with the same elements, possibly in another order.
\<close>

theorem stats_order_independent:
  assumes "mset data' = mset data"
    and "dyadicData k lucro data" "dyadicData k stake data"
    and "sameKeySameOperador U data"
  shows "overview (statsOfRecords round64 U data') = overview (statsOfRecords round64 U data) \<and>
         lucroPorDia (statsOfRecords round64 U data') =
           lucroPorDia (statsOfRecords round64 U data) \<and>
         mset (porOperador (statsOfRecords round64 U data')) =
           mset (porOperador (statsOfRecords round64 U data)) \<and>
         mset (porCasa (statsOfRecords round64 U data')) =
           mset (porCasa (statsOfRecords round64 U data)) \<and>
         mset (porEsporte (statsOfRecords round64 U data')) =
           mset (porEsporte (statsOfRecords round64 U data))"
proof -
  let ?gs' = "map snd (groupEntries round64 U data')"
  let ?gs = "map snd (groupEntries round64 U data)"
  have l': "dyadicData k lucro data'" and s': "dyadicData k stake data'"
    by (rule dyadicData_mset [OF assms(1,2)], rule dyadicData_mset [OF assms(1,3)])
  have gs: "mset (map entryProj ?gs') = mset (map entryProj ?gs)"
    by (rule entries_perm [OF assms])
  have ov: "buildOverview round64 data' ?gs' = buildOverview round64 data ?gs"
    by (rule overview_perm [OF assms(1,2,3) gs])
  have day: "buildLucroPorDia round64 data' = buildLucroPorDia round64 data"
    by (rule lucroPorDia_perm [OF assms(1,2)])
  have op: "mset (objectValues round64 (operadorMap round64 ?gs')) =
            mset (objectValues round64 (operadorMap round64 ?gs))"
    unfolding operadorMap_bucketFold
    by (rule bucketFold_perm [OF gs entryProj_exact [OF l' s']])
  have ca: "mset (objectValues round64 (casaMap round64 data')) =
            mset (objectValues round64 (casaMap round64 data))"
    unfolding casaMap_bucketFold
    by (rule bucketFold_perm [OF mset_filter_cong [OF assms(1)]
          dyadicData_filter [OF l'] dyadicData_filter [OF s']])
  have es: "mset (objectValues round64 (esporteMap round64 data')) =
            mset (objectValues round64 (esporteMap round64 data))"
    unfolding esporteMap_bucketFold
    by (rule bucketFold_perm [OF mset_filter_cong [OF assms(1)]
          dyadicData_filter [OF l'] dyadicData_filter [OF s']])
  show ?thesis
    by (simp add: statsOfRecords_def buildStatsFromData_def ov day op ca es)
qed

lemma exactExample_operador: "sameKeySameOperador asciiUnicode exactExample"
  by (simp add: sameKeySameOperador_def exactExample_def betOf_def)

lemma exactExample_rev: "mset (rev exactExample) = mset exactExample"
  by simp

theorem stats_order_independent_witness:
  "mset (rev exactExample) = mset exactExample \<and>
   dyadicData 2 lucro exactExample \<and>
   dyadicData 2 stake exactExample \<and>
   sameKeySameOperador asciiUnicode exactExample \<and>
   (overview (statsOfRecords round64 asciiUnicode (rev exactExample)) =
      overview (statsOfRecords round64 asciiUnicode exactExample) \<and>
    lucroPorDia (statsOfRecords round64 asciiUnicode (rev exactExample)) =
      lucroPorDia (statsOfRecords round64 asciiUnicode exactExample) \<and>
    mset (porOperador (statsOfRecords round64 asciiUnicode (rev exactExample))) =
      mset (porOperador (statsOfRecords round64 asciiUnicode exactExample)) \<and>
    mset (porCasa (statsOfRecords round64 asciiUnicode (rev exactExample))) =
      mset (porCasa (statsOfRecords round64 asciiUnicode exactExample)) \<and>
    mset (porEsporte (statsOfRecords round64 asciiUnicode (rev exactExample))) =
      mset (porEsporte (statsOfRecords round64 asciiUnicode exactExample)))"
  by (intro conjI [OF exactExample_rev] conjI [OF exactExample_lucro]
      conjI [OF exactExample_stake] conjI [OF exactExample_operador]
      stats_order_independent
        [OF exactExample_rev exactExample_lucro exactExample_stake exactExample_operador])

end
